theory Spec2Isabelle
  imports Main
begin

unbundle bit_operations_syntax

section \<open>Construction: \<^verbatim>\<open>LiteDRAMNativePort.__init__\<close> and \<^verbatim>\<open>WritebackCache.__init__\<close>\<close>

text \<open>
  Python integers are unbounded, so the constructor arguments are \<^typ>\<open>int\<close>. A raised
  exception is the left summand of the result. The \<^verbatim>\<open>isinstance\<close> tests of the source
  are discharged by the types of the arguments.
\<close>

datatype error = ValueError | TypeError

text \<open>\<^verbatim>\<open>LiteDRAMNativePort.__init__\<close>, lines 14 to 23. In Python \<^verbatim>\<open>-\<close> binds tighter than
  \<^verbatim>\<open>&\<close>, so the test of line 18 is \<^verbatim>\<open>data_width & (data_width - 1)\<close>.\<close>

record LiteDRAMNativePort =
  port_addr_width :: int
  port_data_width :: int

definition LiteDRAMNativePort_init :: "int \<Rightarrow> int \<Rightarrow> error + LiteDRAMNativePort" where
  "LiteDRAMNativePort_init addr_width data_width =
     (if addr_width \<le> 0 then Inl ValueError
      else if data_width \<le> 0 \<or> data_width AND (data_width - 1) \<noteq> 0 then Inl ValueError
      else Inr \<lparr>port_addr_width = addr_width, port_data_width = data_width\<rparr>)"

text \<open>
  \<^verbatim>\<open>nmigen.utils.log2_int\<close> (library code, \<^verbatim>\<open>need_pow2=True\<close>):
  \<^verbatim>\<open>if n == 0: return 0;  r = (n - 1).bit_length();  if (1 << r) != n: raise ValueError\<close>.
\<close>

fun bit_length :: "nat \<Rightarrow> nat" where
  "bit_length n = (if n = 0 then 0 else Suc (bit_length (n div 2)))"

declare bit_length.simps [simp del]

definition log2_int :: "int \<Rightarrow> error + nat" where
  "log2_int n =
     (if n = 0 then Inr 0
      else (let r = bit_length (nat \<bar>n - 1\<bar>)
            in if 2 ^ r \<noteq> n then Inl ValueError else Inr r))"

text \<open>
  \<^verbatim>\<open>nmigen_soc.wishbone.Interface\<close> is library code that the cache constructor calls; its
  argument checks are: the address width is a non-negative integer, the data width is one
  of 8, 16, 32, 64, the granularity defaults to the data width and otherwise is one of
  8, 16, 32, 64, and it is not greater than the data width.
\<close>

record Interface =
  bus_addr_width :: int
  bus_data_width :: int
  bus_granularity :: int

definition Interface_init :: "int \<Rightarrow> int \<Rightarrow> int option \<Rightarrow> error + Interface" where
  "Interface_init addr_width data_width granularity =
     (if addr_width < 0 then Inl ValueError
      else if data_width \<notin> {8, 16, 32, 64} then Inl ValueError
      else (case granularity of
              None \<Rightarrow>
                Inr \<lparr>bus_addr_width = addr_width, bus_data_width = data_width,
                     bus_granularity = data_width\<rparr>
            | Some g \<Rightarrow>
                if g \<notin> {8, 16, 32, 64} then Inl ValueError
                else if g > data_width then Inl ValueError
                else Inr \<lparr>bus_addr_width = addr_width, bus_data_width = data_width,
                          bus_granularity = g\<rparr>))"

text \<open>\<^verbatim>\<open>WritebackCache.__init__\<close>, lines 48 to 69: the three checks in their order, then the
  bus interface with address width \<^verbatim>\<open>dram_port.addr_width + log2_int(ratio)\<close>.\<close>

record WritebackCache =
  cache_size :: int
  dram_port :: LiteDRAMNativePort
  intr_bus :: Interface

definition WritebackCache_init ::
  "LiteDRAMNativePort \<Rightarrow> int \<Rightarrow> int \<Rightarrow> int option \<Rightarrow> error + WritebackCache" where
  "WritebackCache_init port sz data_width granularity =
     (if sz \<le> 0 \<or> sz AND (sz - 1) \<noteq> 0 then Inl ValueError
      else if data_width \<le> 0 \<or> data_width AND (data_width - 1) \<noteq> 0 then Inl ValueError
      else if port_data_width port mod data_width \<noteq> 0 then Inl ValueError
      else (case log2_int (port_data_width port div data_width) of
              Inl e \<Rightarrow> Inl e
            | Inr l \<Rightarrow>
                (case Interface_init (port_addr_width port + int l) data_width granularity of
                   Inl e \<Rightarrow> Inl e
                 | Inr bus \<Rightarrow> Inr \<lparr>cache_size = sz, dram_port = port, intr_bus = bus\<rparr>)))"

text \<open>
  The port is built first and handed to the cache, as \<^verbatim>\<open>SDRAMPeripheral.__init__\<close> and the
  test case do.
\<close>

definition construct :: "int \<Rightarrow> int \<Rightarrow> int \<Rightarrow> int \<Rightarrow> int option \<Rightarrow> error + WritebackCache" where
  "construct addr_width port_width sz data_width granularity =
     (case LiteDRAMNativePort_init addr_width port_width of
        Inl e \<Rightarrow> Inl e
      | Inr port \<Rightarrow> WritebackCache_init port sz data_width granularity)"

section \<open>Elaboration parameters: \<^verbatim>\<open>ratio\<close>, \<^verbatim>\<open>nb_lines\<close> and the \<^verbatim>\<open>intr_adr\<close> layout\<close>

text \<open>Lines 78 and 79 (and 72, 73).\<close>

definition ratio :: "WritebackCache \<Rightarrow> int" where
  "ratio c = port_data_width (dram_port c) div bus_data_width (intr_bus c)"

definition nb_lines :: "WritebackCache \<Rightarrow> int" where
  "nb_lines c = (cache_size c * bus_granularity (intr_bus c)) div port_data_width (dram_port c)"

record layout =
  offset_width :: int
  line_width :: int
  tag_width :: int

text \<open>The three field widths of the \<^verbatim>\<open>intr_adr\<close> record (lines 81 to 85);
  \<^verbatim>\<open>len(self.intr_bus.adr)\<close> is the address width of the bus. A negative width is not a
  signal shape: \<^verbatim>\<open>Record\<close> raises \<^verbatim>\<open>TypeError\<close> there.\<close>

definition intr_adr_layout :: "WritebackCache \<Rightarrow> error + layout" where
  "intr_adr_layout c =
     (case log2_int (ratio c) of
        Inl e \<Rightarrow> Inl e
      | Inr ob \<Rightarrow>
          (case log2_int (nb_lines c) of
             Inl e \<Rightarrow> Inl e
           | Inr lb \<Rightarrow>
               if bus_addr_width (intr_bus c) - int lb - int ob < 0 then Inl TypeError
               else Inr \<lparr>offset_width = int ob, line_width = int lb,
                         tag_width = bus_addr_width (intr_bus c) - int lb - int ob\<rparr>))"

text \<open>
  The widths the elaborated circuit is built from, as natural numbers, and the depth of the
  two memories (\<^verbatim>\<open>Memory(..., depth=nb_lines)\<close>, lines 109 and 119), which is 0 when the
  cache size is less than one line.
\<close>

record elab =
  offset_bits :: nat
  line_bits :: nat
  tag_bits :: nat
  bus_bits :: nat
  gran_bits :: nat
  port_bits :: nat
  port_adr_bits :: nat
  words :: nat
  depth :: nat

definition elaborate :: "WritebackCache \<Rightarrow> error + elab" where
  "elaborate c =
     (case intr_adr_layout c of
        Inl e \<Rightarrow> Inl e
      | Inr l \<Rightarrow>
          Inr \<lparr>offset_bits = nat (offset_width l), line_bits = nat (line_width l),
               tag_bits = nat (tag_width l),
               bus_bits = nat (bus_data_width (intr_bus c)),
               gran_bits = nat (bus_granularity (intr_bus c)),
               port_bits = nat (port_data_width (dram_port c)),
               port_adr_bits = nat (port_addr_width (dram_port c)),
               words = nat (ratio c),
               depth = nat (nb_lines c)\<rparr>)"

definition adr_bits :: "elab \<Rightarrow> nat" where
  "adr_bits p = offset_bits p + line_bits p + tag_bits p"

section \<open>Address decomposition and burst continuation\<close>

text \<open>\<^verbatim>\<open>intr_adr.eq(self.intr_bus.adr)\<close> (lines 81 to 86): offset in the low bits, then line,
  then tag.\<close>

definition adr_offset :: "elab \<Rightarrow> nat \<Rightarrow> nat" where
  "adr_offset p a = a mod 2 ^ offset_bits p"

definition adr_line :: "elab \<Rightarrow> nat \<Rightarrow> nat" where
  "adr_line p a = (a div 2 ^ offset_bits p) mod 2 ^ line_bits p"

definition adr_tag :: "elab \<Rightarrow> nat \<Rightarrow> nat" where
  "adr_tag p a = (a div 2 ^ (offset_bits p + line_bits p)) mod 2 ^ tag_bits p"

datatype BurstTypeExt = LINEAR | WRAP_4 | WRAP_8 | WRAP_16

datatype CycleType = CLASSIC | CONST_BURST | INCR_BURST | END_OF_BURST

text \<open>
  Lines 88 to 101.
  \<^verbatim>\<open>intr_adr_next[:k].eq(intr_adr[:k] + 1); intr_adr_next[k:].eq(intr_adr[k:])\<close> on a value
  of \<open>w\<close> bits. A Python slice is clamped to the length of the value, so the window is
  \<open>min k w\<close> bits wide.
\<close>

definition wrap_next :: "nat \<Rightarrow> nat \<Rightarrow> nat \<Rightarrow> nat" where
  "wrap_next w k v =
     (let k' = min k w
      in (v mod 2 ^ k' + 1) mod 2 ^ k' + (v mod 2 ^ w div 2 ^ k') * 2 ^ k')"

definition intr_adr_next :: "elab \<Rightarrow> BurstTypeExt \<Rightarrow> nat \<Rightarrow> nat" where
  "intr_adr_next p b a =
     (case b of
        LINEAR \<Rightarrow> (a mod 2 ^ adr_bits p + 1) mod 2 ^ adr_bits p
      | WRAP_4 \<Rightarrow> wrap_next (adr_bits p) 2 a
      | WRAP_8 \<Rightarrow> wrap_next (adr_bits p) 3 a
      | WRAP_16 \<Rightarrow> wrap_next (adr_bits p) 4 a)"

section \<open>The elaborated circuit\<close>

text \<open>
  One call of \<open>step\<close> is one clock tick. Combinational signals (\<^verbatim>\<open>m.d.comb\<close>) are functions
  of the registers and of the inputs of the tick, with the value 0 where no statement of
  the active state drives them; registers (\<^verbatim>\<open>m.d.sync\<close>, the memories and the outputs of
  their read ports) take their new values at the end of the tick. Bit vectors are natural
  numbers, truncated to the width of the signal that carries them.
\<close>

datatype fsm_state = CHECK | EVICT | REFILL

record tag_entry =
  tag :: nat
  dirty :: bool

record state =
  fsm :: fsm_state
  intr_bus_r_cyc :: bool
  intr_bus_r_stb :: bool
  intr_bus_r_adr :: nat
  evict_done_cmd :: bool
  evict_done_w :: bool
  refill_done_cmd :: bool
  refill_done_r :: bool
  tag_mem :: "nat \<Rightarrow> tag_entry"
  dat_mem :: "nat \<Rightarrow> nat"
  tag_rp_data :: tag_entry
  dat_rp_data :: nat

record inputs =
  cyc :: bool
  stb :: bool
  adr :: nat
  we :: bool
  sel :: nat
  dat_w :: nat
  cti :: CycleType
  bte :: BurstTypeExt
  cmd_ready :: bool
  w_ready :: bool
  r_valid :: bool
  r_data :: nat

text \<open>Registers and memories start at zero and the FSM in its first state, as the
  assumptions of lines 234 to 241 say.\<close>

definition init_state :: state where
  "init_state =
     \<lparr>fsm = CHECK, intr_bus_r_cyc = False, intr_bus_r_stb = False, intr_bus_r_adr = 0,
      evict_done_cmd = False, evict_done_w = False,
      refill_done_cmd = False, refill_done_r = False,
      tag_mem = (\<lambda>_. \<lparr>tag = 0, dirty = False\<rparr>), dat_mem = (\<lambda>_. 0),
      tag_rp_data = \<lparr>tag = 0, dirty = False\<rparr>, dat_rp_data = 0\<rparr>"

subsection \<open>Front-end signals\<close>

text \<open>\<^verbatim>\<open>intr_adr_r.eq(intr_bus_r.adr)\<close> (lines 124 to 126): the fields of the registered
  address.\<close>

definition intr_adr_r_line :: "elab \<Rightarrow> state \<Rightarrow> nat" where
  "intr_adr_r_line p s = adr_line p (intr_bus_r_adr s)"

definition intr_adr_r_tag :: "elab \<Rightarrow> state \<Rightarrow> nat" where
  "intr_adr_r_tag p s = adr_tag p (intr_bus_r_adr s)"

text \<open>\<^verbatim>\<open>intr_adr.tag == tag_rp_data.tag\<close>, the comparison of lines 166 and 173.\<close>

definition tag_match :: "elab \<Rightarrow> state \<Rightarrow> inputs \<Rightarrow> bool" where
  "tag_match p s i = (adr_tag p (adr i) = tag (tag_rp_data s))"

text \<open>Line 167, under the tests of lines 165 and 166; no other state drives \<^verbatim>\<open>ack\<close>.\<close>

definition ack :: "elab \<Rightarrow> state \<Rightarrow> inputs \<Rightarrow> bool" where
  "ack p s i =
     (fsm s = CHECK \<and> cyc i \<and> stb i \<and> tag_match p s i
      \<and> intr_bus_r_cyc s \<and> intr_bus_r_stb s)"

text \<open>\<^verbatim>\<open>v.word_select(k, w)\<close>; \<^verbatim>\<open>dat_r\<close> is driven at lines 152 to 156.\<close>

definition word_select :: "nat \<Rightarrow> nat \<Rightarrow> nat \<Rightarrow> nat" where
  "word_select v k w = (v div 2 ^ (k * w)) mod 2 ^ w"

definition dat_r :: "elab \<Rightarrow> state \<Rightarrow> inputs \<Rightarrow> nat" where
  "dat_r p s i =
     (if fsm s = CHECK then word_select (dat_rp_data s) (adr_offset p (adr i)) (bus_bits p)
      else 0)"

text \<open>The miss branch of line 173: the \<^verbatim>\<open>Elif\<close> of the tag comparison, inside the
  test of the live \<^verbatim>\<open>cyc & stb\<close>.\<close>

definition miss :: "elab \<Rightarrow> state \<Rightarrow> inputs \<Rightarrow> bool" where
  "miss p s i =
     (fsm s = CHECK \<and> cyc i \<and> stb i \<and> \<not> tag_match p s i
      \<and> intr_bus_r_cyc s \<and> intr_bus_r_stb s)"

subsection \<open>Memory ports\<close>

text \<open>\<^verbatim>\<open>tag_rp\<close> and \<^verbatim>\<open>dat_rp\<close> are driven by the same statements (lines 136 to 151), so one
  address and one enable stand for both.\<close>

definition rp_addr :: "elab \<Rightarrow> state \<Rightarrow> inputs \<Rightarrow> nat" where
  "rp_addr p s i =
     (if fsm s = CHECK \<and> cyc i \<and> stb i
      then (if ack p s i \<and> cti i = INCR_BURST
            then adr_line p (intr_adr_next p (bte i) (adr i))
            else adr_line p (adr i))
      else 0)"

definition rp_en :: "elab \<Rightarrow> state \<Rightarrow> inputs \<Rightarrow> bool" where
  "rp_en p s i =
     (fsm s = CHECK \<and> cyc i \<and> stb i
      \<and> (\<not> intr_bus_r_cyc s \<or> \<not> intr_bus_r_stb s \<or> ack p s i))"

text \<open>Line 222.\<close>

definition r_ready :: "state \<Rightarrow> bool" where
  "r_ready s = (fsm s = REFILL \<and> \<not> refill_done_r s)"

text \<open>The write ports: lines 158 to 172 in CHECK, lines 223 to 229 in REFILL. Both ports
  take the same address.\<close>

definition wp_addr :: "elab \<Rightarrow> state \<Rightarrow> inputs \<Rightarrow> nat" where
  "wp_addr p s i =
     (case fsm s of
        CHECK \<Rightarrow> adr_line p (adr i)
      | EVICT \<Rightarrow> 0
      | REFILL \<Rightarrow> intr_adr_r_line p s)"

definition tag_wp_data :: "elab \<Rightarrow> state \<Rightarrow> inputs \<Rightarrow> tag_entry" where
  "tag_wp_data p s i =
     (case fsm s of
        CHECK \<Rightarrow> \<lparr>tag = adr_tag p (adr i), dirty = True\<rparr>
      | EVICT \<Rightarrow> \<lparr>tag = 0, dirty = False\<rparr>
      | REFILL \<Rightarrow> \<lparr>tag = intr_adr_r_tag p s, dirty = False\<rparr>)"

definition tag_wp_en :: "elab \<Rightarrow> state \<Rightarrow> inputs \<Rightarrow> bool" where
  "tag_wp_en p s i =
     (case fsm s of
        CHECK \<Rightarrow> cyc i \<and> stb i \<and> tag_match p s i \<and> we i \<and> ack p s i
      | EVICT \<Rightarrow> False
      | REFILL \<Rightarrow> r_valid i \<and> r_ready s)"

text \<open>\<^verbatim>\<open>Repl(v, n)\<close> of a \<open>w\<close>-bit value.\<close>

fun Repl :: "nat \<Rightarrow> nat \<Rightarrow> nat \<Rightarrow> nat" where
  "Repl w v 0 = 0"
| "Repl w v (Suc n) = Repl w v n + (v mod 2 ^ w) * 2 ^ (n * w)"

text \<open>The number of write-enable bits of \<^verbatim>\<open>dat_wp\<close> and the number of bits of \<^verbatim>\<open>sel\<close>.\<close>

definition wp_lanes :: "elab \<Rightarrow> nat" where
  "wp_lanes p = port_bits p div gran_bits p"

definition sel_lanes :: "elab \<Rightarrow> nat" where
  "sel_lanes p = bus_bits p div gran_bits p"

definition dat_wp_data :: "elab \<Rightarrow> state \<Rightarrow> inputs \<Rightarrow> nat" where
  "dat_wp_data p s i =
     (case fsm s of
        CHECK \<Rightarrow> Repl (bus_bits p) (dat_w i) (words p) mod 2 ^ port_bits p
      | EVICT \<Rightarrow> 0
      | REFILL \<Rightarrow> r_data i mod 2 ^ port_bits p)"

definition dat_wp_en :: "elab \<Rightarrow> state \<Rightarrow> inputs \<Rightarrow> nat" where
  "dat_wp_en p s i =
     (case fsm s of
        CHECK \<Rightarrow>
          if cyc i \<and> stb i \<and> tag_match p s i \<and> we i \<and> ack p s i
          then ((sel i mod 2 ^ sel_lanes p) * 2 ^ (adr_offset p (adr i) * sel_lanes p))
                 mod 2 ^ wp_lanes p
          else 0
      | EVICT \<Rightarrow> 0
      | REFILL \<Rightarrow> if r_valid i \<and> r_ready s then 2 ^ wp_lanes p - 1 else 0)"

text \<open>A write port with granularity \<open>g\<close> and \<open>n\<close> enable bits: lane \<open>k\<close> of the stored word
  is replaced by lane \<open>k\<close> of the data where bit \<open>k\<close> of the enable is set.\<close>

fun write_lanes :: "nat \<Rightarrow> nat \<Rightarrow> nat \<Rightarrow> nat \<Rightarrow> nat \<Rightarrow> nat" where
  "write_lanes g 0 en d old = 0"
| "write_lanes g (Suc n) en d old =
     write_lanes g n en d old
     + (if odd (en div 2 ^ n) then word_select d n g else word_select old n g) * 2 ^ (n * g)"

subsection \<open>Backend channels\<close>

text \<open>Lines 189 to 194 in EVICT, lines 212 to 217 in REFILL.\<close>

definition cmd_valid :: "state \<Rightarrow> bool" where
  "cmd_valid s =
     (case fsm s of
        CHECK \<Rightarrow> False
      | EVICT \<Rightarrow> \<not> evict_done_cmd s
      | REFILL \<Rightarrow> \<not> refill_done_cmd s)"

definition cmd_last :: "state \<Rightarrow> bool" where
  "cmd_last s = (fsm s = REFILL)"

definition cmd_we :: "state \<Rightarrow> bool" where
  "cmd_we s = (fsm s = EVICT)"

text \<open>\<^verbatim>\<open>Cat(line, tag)\<close>: the line in the low bits.\<close>

definition Cat :: "elab \<Rightarrow> nat \<Rightarrow> nat \<Rightarrow> nat" where
  "Cat p l t = l mod 2 ^ line_bits p + t * 2 ^ line_bits p"

definition cmd_addr :: "elab \<Rightarrow> state \<Rightarrow> nat" where
  "cmd_addr p s =
     (case fsm s of
        CHECK \<Rightarrow> 0
      | EVICT \<Rightarrow> Cat p (intr_adr_r_line p s) (tag (tag_rp_data s)) mod 2 ^ port_adr_bits p
      | REFILL \<Rightarrow> Cat p (intr_adr_r_line p s) (intr_adr_r_tag p s) mod 2 ^ port_adr_bits p)"

text \<open>Lines 198 to 202.\<close>

definition w_valid :: "state \<Rightarrow> bool" where
  "w_valid s = (fsm s = EVICT \<and> \<not> evict_done_w s)"

definition w_we :: "elab \<Rightarrow> state \<Rightarrow> nat" where
  "w_we p s = (if fsm s = EVICT then 2 ^ (port_bits p div 8) - 1 else 0)"

definition w_data :: "state \<Rightarrow> nat" where
  "w_data s = (if fsm s = EVICT then dat_rp_data s else 0)"

subsection \<open>The clock tick\<close>

text \<open>\<^verbatim>\<open>m.next\<close>: lines 178 to 181, 187 and 210.\<close>

definition next_fsm :: "elab \<Rightarrow> state \<Rightarrow> inputs \<Rightarrow> fsm_state" where
  "next_fsm p s i =
     (case fsm s of
        CHECK \<Rightarrow> if miss p s i then (if dirty (tag_rp_data s) then EVICT else REFILL) else CHECK
      | EVICT \<Rightarrow> if evict_done_cmd s \<and> evict_done_w s then REFILL else EVICT
      | REFILL \<Rightarrow> if refill_done_cmd s \<and> refill_done_r s then CHECK else REFILL)"

text \<open>The registers: lines 130 to 134 and 174 to 177 for the registered request, 185 to
  187, 195, 196, 203 and 204 for the EVICT flags, 208 to 210, 218, 219, 231 and 232 for the
  REFILL flags. A later \<^verbatim>\<open>m.d.sync\<close> statement wins over an earlier one on the same signal.
  A write port stores at the end of the tick; a read port that is not transparent loads
  the word stored before the tick where its enable is set, and holds its output
  otherwise. A memory of depth \<open>d\<close> has the entries 0 to \<open>d - 1\<close>: a write to any other
  address stores nothing, so with depth 0 nothing is ever stored and every read gives the
  reset value.\<close>

definition step :: "elab \<Rightarrow> state \<Rightarrow> inputs \<Rightarrow> state" where
  "step p s i =
     \<lparr>fsm = next_fsm p s i,
      intr_bus_r_cyc =
        (if fsm s = CHECK then (if miss p s i then False else cyc i) else intr_bus_r_cyc s),
      intr_bus_r_stb =
        (if fsm s = CHECK then (if miss p s i then False else stb i) else intr_bus_r_stb s),
      intr_bus_r_adr =
        (if fsm s = CHECK then adr i mod 2 ^ adr_bits p else intr_bus_r_adr s),
      evict_done_cmd =
        (if fsm s = EVICT
         then (if cmd_valid s \<and> cmd_ready i then True
               else if evict_done_cmd s \<and> evict_done_w s then False
               else evict_done_cmd s)
         else evict_done_cmd s),
      evict_done_w =
        (if fsm s = EVICT
         then (if w_valid s \<and> w_ready i then True
               else if evict_done_cmd s \<and> evict_done_w s then False
               else evict_done_w s)
         else evict_done_w s),
      refill_done_cmd =
        (if fsm s = REFILL
         then (if cmd_valid s \<and> cmd_ready i then True
               else if refill_done_cmd s \<and> refill_done_r s then False
               else refill_done_cmd s)
         else refill_done_cmd s),
      refill_done_r =
        (if fsm s = REFILL
         then (if r_valid i \<and> r_ready s then True
               else if refill_done_cmd s \<and> refill_done_r s then False
               else refill_done_r s)
         else refill_done_r s),
      tag_mem =
        (if tag_wp_en p s i \<and> wp_addr p s i < depth p
         then (tag_mem s)(wp_addr p s i := tag_wp_data p s i)
         else tag_mem s),
      dat_mem =
        (if dat_wp_en p s i = 0 \<or> \<not> wp_addr p s i < depth p then dat_mem s
         else (dat_mem s)(wp_addr p s i :=
                write_lanes (gran_bits p) (wp_lanes p) (dat_wp_en p s i) (dat_wp_data p s i)
                  (dat_mem s (wp_addr p s i)))),
      tag_rp_data = (if rp_en p s i then tag_mem s (rp_addr p s i) else tag_rp_data s),
      dat_rp_data = (if rp_en p s i then dat_mem s (rp_addr p s i) else dat_rp_data s)\<rparr>"

fun run :: "elab \<Rightarrow> state \<Rightarrow> inputs list \<Rightarrow> state" where
  "run p s [] = s"
| "run p s (i # is) = run p (step p s i) is"

text \<open>The states the circuit can be in after reset, whatever the inputs.\<close>

inductive reachable :: "elab \<Rightarrow> state \<Rightarrow> bool" for p :: elab where
  reach_init: "reachable p init_state"
| reach_step: "reachable p s \<Longrightarrow> reachable p (step p s i)"

section \<open>Notions used to state the properties\<close>

definition next_spec :: "BurstTypeExt \<Rightarrow> nat \<Rightarrow> nat" where
  "next_spec b a =
     (case b of
        LINEAR \<Rightarrow> a + 1
      | WRAP_4 \<Rightarrow> (a mod 2 ^ 2 + 1) mod 2 ^ 2 + (a div 2 ^ 2) * 2 ^ 2
      | WRAP_8 \<Rightarrow> (a mod 2 ^ 3 + 1) mod 2 ^ 3 + (a div 2 ^ 3) * 2 ^ 3
      | WRAP_16 \<Rightarrow> (a mod 2 ^ 4 + 1) mod 2 ^ 4 + (a div 2 ^ 4) * 2 ^ 4)"

definition power_of_two :: "int \<Rightarrow> bool" where
  "power_of_two n = (\<exists>k::nat. n = 2 ^ k)"

definition claimed_valid :: "int \<Rightarrow> int \<Rightarrow> int \<Rightarrow> int \<Rightarrow> bool" where
  "claimed_valid addr_width port_width sz data_width =
     (0 < addr_width \<and> power_of_two port_width \<and> power_of_two sz
      \<and> power_of_two data_width \<and> port_width mod data_width = 0)"

definition bus_accepts :: "int \<Rightarrow> int option \<Rightarrow> bool" where
  "bus_accepts data_width granularity =
     (data_width \<in> {8, 16, 32, 64}
      \<and> (case granularity of None \<Rightarrow> True | Some g \<Rightarrow> g \<in> {8, 16, 32, 64} \<and> g \<le> data_width))"

definition granularity_of :: "int \<Rightarrow> int option \<Rightarrow> int" where
  "granularity_of data_width granularity =
     (case granularity of None \<Rightarrow> data_width | Some g \<Rightarrow> g)"

definition test_cache :: WritebackCache where
  "test_cache =
     \<lparr>cache_size = 8, dram_port = \<lparr>port_addr_width = 23, port_data_width = 32\<rparr>,
      intr_bus = \<lparr>bus_addr_width = 24, bus_data_width = 16, bus_granularity = 8\<rparr>\<rparr>"

definition narrow_cache :: WritebackCache where
  "narrow_cache =
     \<lparr>cache_size = 8, dram_port = \<lparr>port_addr_width = 2, port_data_width = 16\<rparr>,
      intr_bus = \<lparr>bus_addr_width = 2, bus_data_width = 16, bus_granularity = 16\<rparr>\<rparr>"

definition claimed_hit :: "elab \<Rightarrow> state \<Rightarrow> bool" where
  "claimed_hit p s =
     (intr_adr_r_tag p s = tag (tag_rp_data s) \<and> intr_bus_r_cyc s \<and> intr_bus_r_stb s)"

definition claimed_miss :: "elab \<Rightarrow> state \<Rightarrow> bool" where
  "claimed_miss p s =
     (intr_adr_r_tag p s \<noteq> tag (tag_rp_data s) \<and> intr_bus_r_cyc s \<and> intr_bus_r_stb s)"

fun busy_states :: "elab \<Rightarrow> state \<Rightarrow> inputs list \<Rightarrow> state list" where
  "busy_states p s [] = (if fsm s = CHECK then [] else [s])"
| "busy_states p s (i # is) =
     (if fsm s = CHECK then [] else s # busy_states p (step p s i) is)"

definition test_elab :: elab where
  "test_elab = \<lparr>offset_bits = 1, line_bits = 1, tag_bits = 22, bus_bits = 16, gran_bits = 8,
                 port_bits = 32, port_adr_bits = 23, words = 2, depth = 2\<rparr>"

definition idle :: inputs where
  "idle = \<lparr>cyc = False, stb = False, adr = 0, we = False, sel = 0, dat_w = 0,
            cti = CLASSIC, bte = LINEAR,
            cmd_ready = False, w_ready = False, r_valid = False, r_data = 0\<rparr>"

definition request :: "nat \<Rightarrow> CycleType \<Rightarrow> inputs" where
  "request a c = idle\<lparr>cyc := True, stb := True, adr := a, cti := c\<rparr>"

definition refill_cmd :: inputs where
  "refill_cmd = (request 4 CLASSIC)\<lparr>cmd_ready := True\<rparr>"

definition refill_beat :: inputs where
  "refill_beat = (request 4 CLASSIC)\<lparr>r_valid := True, r_data := 7\<rparr>"

definition miss_state :: state where
  "miss_state = run test_elab init_state [request 4 CLASSIC]"

definition refill_state :: state where
  "refill_state = run test_elab init_state [request 4 CLASSIC, request 4 CLASSIC]"

definition refilled_state :: state where
  "refilled_state = run test_elab init_state [request 4 CLASSIC, request 4 CLASSIC, refill_cmd, refill_beat]"

definition lookahead_state :: state where
  "lookahead_state =
     run test_elab init_state
       [request 4 CLASSIC, request 4 CLASSIC, refill_cmd, refill_beat,
        request 4 CLASSIC, request 4 CLASSIC, request 4 CLASSIC,
        idle, request 3 INCR_BURST]"

definition burst_state :: state where
  "burst_state = step test_elab lookahead_state (request 3 INCR_BURST)"

fun evict_pass :: "elab \<Rightarrow> state \<Rightarrow> inputs list \<Rightarrow> (state \<times> inputs) list" where
  "evict_pass p s [] = []"
| "evict_pass p s (i # is) =
     (if fsm s = EVICT then (s, i) # evict_pass p (step p s i) is else [])"

fun after_pass :: "elab \<Rightarrow> state \<Rightarrow> inputs list \<Rightarrow> state" where
  "after_pass p s [] = s"
| "after_pass p s (i # is) = (if fsm s = EVICT then after_pass p (step p s i) is else s)"

definition cmd_fire :: "state \<times> inputs \<Rightarrow> bool" where
  "cmd_fire t = (cmd_valid (fst t) \<and> cmd_ready (snd t))"

definition w_fire :: "state \<times> inputs \<Rightarrow> bool" where
  "w_fire t = (w_valid (fst t) \<and> w_ready (snd t))"

definition evict_inputs :: "inputs list" where
  "evict_inputs = [idle\<lparr>w_ready := True\<rparr>, idle\<lparr>cmd_ready := True\<rparr>, idle, idle]"

definition evict_entry :: state where
  "evict_entry =
     init_state\<lparr>fsm := EVICT, intr_bus_r_adr := 4,
       tag_rp_data := \<lparr>tag = 5, dirty = True\<rparr>, dat_rp_data := 9\<rparr>"

text \<open>
  Modelled from the spec: the backing store is outside the repository (section 4.4 and the
  glossary of the specification; the test harness assumes the same at lines 61, 128 to 137
  and 144 to 154). It is a table from backend addresses to line-wide words. The write of an
  eviction lands once both its command and its write beat have been accepted, that is on
  the tick where both completion flags are set; a read beat accepted in REFILL carries the
  stored word of the command address.
\<close>

type_synonym dram = "nat \<Rightarrow> nat"

definition dram_step :: "elab \<Rightarrow> state \<Rightarrow> dram \<Rightarrow> dram" where
  "dram_step p s d =
     (if fsm s = EVICT \<and> evict_done_cmd s \<and> evict_done_w s
      then d(cmd_addr p s := w_data s) else d)"

definition read_ok :: "elab \<Rightarrow> state \<Rightarrow> dram \<Rightarrow> inputs \<Rightarrow> bool" where
  "read_ok p s d i =
     (if fsm s = REFILL \<and> r_valid i \<and> r_ready s
      then r_data i mod 2 ^ port_bits p = d (cmd_addr p s) else True)"

fun sys_run :: "elab \<Rightarrow> state \<times> dram \<Rightarrow> inputs list \<Rightarrow> state \<times> dram" where
  "sys_run p sd [] = sd"
| "sys_run p sd (i # is) = sys_run p (step p (fst sd) i, dram_step p (fst sd) (snd sd)) is"

fun env_ok :: "elab \<Rightarrow> state \<times> dram \<Rightarrow> inputs list \<Rightarrow> bool" where
  "env_ok p sd [] = True"
| "env_ok p sd (i # is) =
     (read_ok p (fst sd) (snd sd) i
      \<and> env_ok p (step p (fst sd) i, dram_step p (fst sd) (snd sd)) is)"

text \<open>The backend address of the line cached at index \<open>l\<close>, formed as the command
  addresses are.\<close>

definition line_addr :: "elab \<Rightarrow> state \<Rightarrow> nat \<Rightarrow> nat" where
  "line_addr p s l = Cat p l (tag (tag_mem s l)) mod 2 ^ port_adr_bits p"

text \<open>The memories are zero after reset, so the backing store holds zero at the addresses
  with tag 0 (the harness assumes \<^verbatim>\<open>dram_data == 0\<close> initially).\<close>

definition dram_reset_ok :: "elab \<Rightarrow> dram \<Rightarrow> bool" where
  "dram_reset_ok p d = (\<forall>l < depth p. d (Cat p l 0 mod 2 ^ port_adr_bits p) = 0)"

definition under_replacement :: "elab \<Rightarrow> state \<Rightarrow> nat \<Rightarrow> bool" where
  "under_replacement p s l =
     (l = intr_adr_r_line p s \<and> (fsm s = EVICT \<or> (fsm s = REFILL \<and> \<not> refill_done_r s)))"

definition coherent :: "elab \<Rightarrow> state \<Rightarrow> dram \<Rightarrow> bool" where
  "coherent p s d =
     (\<forall>l < depth p. \<not> under_replacement p s l \<longrightarrow> \<not> dirty (tag_mem s l) \<longrightarrow>
        dat_mem s l = d (line_addr p s l))"

text \<open>What the proofs use of an elaboration: the write-enable lanes make up the line, a
  line index fits in a backend address, and the memories have either no entry or one for
  every line index.\<close>

definition elab_ok :: "elab \<Rightarrow> bool" where
  "elab_ok p =
     (0 < wp_lanes p \<and> wp_lanes p * gran_bits p = port_bits p \<and> line_bits p \<le> port_adr_bits p
      \<and> (depth p = 0 \<or> depth p = 2 ^ line_bits p))"

definition write_hit_inputs :: "inputs list" where
  "write_hit_inputs =
     [idle\<lparr>cyc := True, stb := True, we := True, sel := 3\<rparr>,
      idle\<lparr>cyc := True, stb := True, we := True, sel := 3\<rparr>]"

definition claimed_dirty_iff :: "elab \<Rightarrow> state \<Rightarrow> dram \<Rightarrow> nat \<Rightarrow> bool" where
  "claimed_dirty_iff p s d l = (dirty (tag_mem s l) = (dat_mem s l \<noteq> d (line_addr p s l)))"

definition zero_dram :: dram where
  "zero_dram = (\<lambda>_. 0)"

definition test_dram :: dram where
  "test_dram = zero_dram(3 := 7)"

definition line1_refill :: "inputs list" where
  "line1_refill =
     [request 6 CLASSIC, request 6 CLASSIC, (request 6 CLASSIC)\<lparr>cmd_ready := True\<rparr>,
      (request 6 CLASSIC)\<lparr>r_valid := True, r_data := 7\<rparr>]"

definition line1_refilled :: state where
  "line1_refilled = run test_elab init_state line1_refill"

definition write_hit_state :: state where
  "write_hit_state = fst (sys_run test_elab (init_state, zero_dram) write_hit_inputs)"

definition write_hit_dram :: dram where
  "write_hit_dram = snd (sys_run test_elab (init_state, zero_dram) write_hit_inputs)"

definition switch_inputs :: "inputs list" where
  "switch_inputs =
     [idle\<lparr>cyc := True, stb := True, adr := 2, we := True, sel := 3, dat_w := 9\<rparr>,
      idle\<lparr>cyc := True, stb := True, adr := 2, we := True, sel := 3, dat_w := 9\<rparr>,
      idle, request 2 CLASSIC, request 20 CLASSIC,
      idle\<lparr>cmd_ready := True, w_ready := True\<rparr>, idle]"

definition claimed_post_refill :: "elab \<Rightarrow> state \<Rightarrow> bool" where
  "claimed_post_refill p s =
     (tag_mem s (intr_adr_r_line p s) = \<lparr>tag = intr_adr_r_tag p s, dirty = False\<rparr>)"

definition line1_miss :: state where
  "line1_miss = run test_elab init_state [request 6 CLASSIC]"

definition line1_refilling :: state where
  "line1_refilling =
     run test_elab init_state
       [request 6 CLASSIC, request 6 CLASSIC, (request 6 CLASSIC)\<lparr>cmd_ready := True\<rparr>]"

definition empty_cache :: WritebackCache where
  "empty_cache =
     \<lparr>cache_size = 2, dram_port = \<lparr>port_addr_width = 23, port_data_width = 32\<rparr>,
      intr_bus = \<lparr>bus_addr_width = 24, bus_data_width = 16, bus_granularity = 8\<rparr>\<rparr>"

definition empty_elab :: elab where
  "empty_elab = \<lparr>offset_bits = 1, line_bits = 0, tag_bits = 23, bus_bits = 16, gran_bits = 8,
                  port_bits = 32, port_adr_bits = 23, words = 2, depth = 0\<rparr>"

definition empty_miss :: state where
  "empty_miss = run empty_elab init_state [request 2 CLASSIC]"

definition empty_refilled :: state where
  "empty_refilled =
     run empty_elab init_state
       [request 2 CLASSIC, request 2 CLASSIC, (request 2 CLASSIC)\<lparr>cmd_ready := True\<rparr>,
        (request 2 CLASSIC)\<lparr>r_valid := True, r_data := 7\<rparr>]"

definition single_cache :: WritebackCache where
  "single_cache =
     \<lparr>cache_size = 4, dram_port = \<lparr>port_addr_width = 23, port_data_width = 32\<rparr>,
      intr_bus = \<lparr>bus_addr_width = 24, bus_data_width = 16, bus_granularity = 8\<rparr>\<rparr>"

definition single_elab :: elab where
  "single_elab = \<lparr>offset_bits = 1, line_bits = 0, tag_bits = 23, bus_bits = 16, gran_bits = 8,
                   port_bits = 32, port_adr_bits = 23, words = 2, depth = 1\<rparr>"

definition burst_write :: "nat \<Rightarrow> nat \<Rightarrow> inputs" where
  "burst_write a v =
     idle\<lparr>cyc := True, stb := True, adr := a, we := True, sel := 3, dat_w := v,
          cti := INCR_BURST\<rparr>"

definition stale_evict :: state where
  "stale_evict =
     run single_elab init_state
       [burst_write 0 4369, burst_write 0 4369, burst_write 1 8738, burst_write 2 0]"

definition stale_dirty :: state where
  "stale_dirty = run single_elab init_state [burst_write 1 4369, burst_write 1 4369]"

section \<open>Properties\<close>

lemma wrap_next_wide:
  assumes "k \<le> w" and "v < 2 ^ w"
  shows "wrap_next w k v = ((v mod 2 ^ k + 1) mod 2 ^ k + (v div 2 ^ k) * 2 ^ k) mod 2 ^ w"
proof -
  have lt: "(v mod 2 ^ k + 1) mod 2 ^ k + (v div 2 ^ k) * 2 ^ k < 2 ^ w"
  proof -
    have d: "v div 2 ^ k < 2 ^ (w - k)"
      using assms by (simp add: less_mult_imp_div_less power_add [symmetric])
    have "(v mod 2 ^ k + 1) mod 2 ^ k < (2::nat) ^ k" by simp
    then have "(v mod 2 ^ k + 1) mod 2 ^ k + (v div 2 ^ k) * 2 ^ k < 2 ^ k + (v div 2 ^ k) * 2 ^ k"
      by simp
    also have "\<dots> = (Suc (v div 2 ^ k)) * 2 ^ k" by simp
    also have "\<dots> \<le> 2 ^ (w - k) * 2 ^ k" using d by (intro mult_le_mono1) simp
    also have "\<dots> = 2 ^ w" using assms(1) by (simp add: power_add [symmetric])
    finally show ?thesis .
  qed
  show ?thesis using assms lt by (simp add: wrap_next_def min_def)
qed

lemma wrap_next_narrow:
  assumes "w < k" and "v < 2 ^ w"
  shows "wrap_next w k v = ((v mod 2 ^ k + 1) mod 2 ^ k + (v div 2 ^ k) * 2 ^ k) mod 2 ^ w"
proof -
  have "(2::nat) ^ w < 2 ^ k" using assms(1) by simp
  moreover have "(2::nat) ^ Suc w \<le> 2 ^ k" using assms(1) by (intro power_increasing) simp_all
  ultimately have a: "v < 2 ^ k" and b: "v + 1 < 2 ^ k" using assms(2) by simp_all
  show ?thesis using assms a b by (simp add: wrap_next_def min_def)
qed

lemma wrap_next_spec:
  "wrap_next w k v =
     ((v mod 2 ^ w mod 2 ^ k + 1) mod 2 ^ k + (v mod 2 ^ w div 2 ^ k) * 2 ^ k) mod 2 ^ w"
proof -
  have e: "wrap_next w k v = wrap_next w k (v mod 2 ^ w)"
    by (simp add: wrap_next_def min_def mod_mod_cancel le_imp_power_dvd)
  have "v mod 2 ^ w < 2 ^ w" by simp
  then show ?thesis
    using wrap_next_wide [of k w "v mod 2 ^ w"] wrap_next_narrow [of w k "v mod 2 ^ w"] e
    by (cases "k \<le> w") simp_all
qed

text \<open>
  Claim C7. For every address and burst type the next-address function yields, as a value
  of the address signal (truncated to its width): under LINEAR the address incremented by
  1; under WRAP_4, WRAP_8 and WRAP_16 the low 2, 3 and 4 bits incremented by 1, wrapping
  within that window, with all higher bits unchanged.
\<close>

theorem intr_adr_next_spec:
  "intr_adr_next p b a = next_spec b (a mod 2 ^ adr_bits p) mod 2 ^ adr_bits p"
  by (cases b) (simp_all only: intr_adr_next_def next_spec_def wrap_next_spec BurstTypeExt.case)

lemma and_pred_even: "(2 * m) AND (2 * m - 1) = 2 * (m AND (m - 1))" for m :: int
proof -
  have a: "(2 * m - 1) div 2 = m - 1" by linarith
  have b: "(2 * m) div 2 = m" by simp
  show ?thesis
    using and_int_rec [of "2 * m" "2 * m - 1"] by (simp only: a b) simp
qed

lemma and_pred_odd: "(2 * m + 1) AND (2 * m + 1 - 1) = 2 * m" for m :: int
proof -
  have a: "(2 * m + 1) div 2 = m" by linarith
  have b: "(2 * m + 1 - 1) div 2 = m" by simp
  show ?thesis
    using and_int_rec [of "2 * m + 1" "2 * m + 1 - 1"] by (simp only: a b) simp
qed

lemma and_pred_pow2: "(2 ^ k) AND (2 ^ k - 1) = (0::int)"
proof (induction k)
  case 0
  show ?case by simp
next
  case (Suc k)
  show ?case using and_pred_even [of "2 ^ k"] Suc by simp
qed

lemma and_pred_zero_pow2:
  fixes n :: int
  shows "0 < n \<Longrightarrow> n AND (n - 1) = 0 \<Longrightarrow> \<exists>k::nat. n = 2 ^ k"
proof (induction "nat n" arbitrary: n rule: less_induct)
  case less
  show ?case
  proof (cases "even n")
    case True
    then obtain m where m: "n = 2 * m" by (elim evenE)
    with less.prems have mpos: "0 < m" by simp
    from less.prems(2) m and_pred_even [of m] have "m AND (m - 1) = 0" by simp
    moreover from m mpos have "nat m < nat n" by simp
    ultimately obtain k where "m = 2 ^ k" using less.hyps [of m] mpos by blast
    with m have "n = 2 ^ Suc k" by simp
    then show ?thesis by blast
  next
    case False
    then obtain m where m: "n = 2 * m + 1" by (elim oddE)
    from less.prems(2) m and_pred_odd [of m] have "m = 0" by simp
    with m have "n = 2 ^ 0" by simp
    then show ?thesis by blast
  qed
qed

lemma pow2_check: "(n \<le> 0 \<or> n AND (n - 1) \<noteq> 0) = (\<not> power_of_two n)"
proof (cases "0 < n")
  case True
  then show ?thesis
    using and_pred_zero_pow2 [of n] and_pred_pow2 by (auto simp: power_of_two_def)
next
  case False
  then show ?thesis by (auto simp: power_of_two_def)
qed

lemma bit_length_pred_pow2: "bit_length (2 ^ k - 1) = k"
proof (induction k)
  case 0
  show ?case by (simp add: bit_length.simps)
next
  case (Suc k)
  have a: "(2 ^ Suc k - 1) div 2 = (2::nat) ^ k - 1" by simp
  have "(0::nat) < 2 ^ k" and "(2::nat) ^ Suc k = 2 * 2 ^ k" by simp_all
  then have b: "(2::nat) ^ Suc k - 1 \<noteq> 0" by linarith
  show ?case using bit_length.simps [of "2 ^ Suc k - 1"] a b Suc by presburger
qed

lemma log2_int_pow2: "log2_int (2 ^ k) = Inr k"
proof -
  have "nat \<bar>(2::int) ^ k - 1\<bar> = 2 ^ k - 1"
    by (simp add: nat_diff_distrib' nat_power_eq)
  then have "bit_length (nat \<bar>(2::int) ^ k - 1\<bar>) = k"
    by (simp only: bit_length_pred_pow2)
  then show ?thesis unfolding log2_int_def Let_def by simp
qed

lemma log2_int_0: "log2_int 0 = Inr 0"
  by (simp add: log2_int_def)

lemma pow2_div:
  fixes a b :: nat
  assumes "(2::int) ^ a mod 2 ^ b = 0"
  shows "b \<le> a \<and> (2::int) ^ a div 2 ^ b = 2 ^ (a - b)"
proof -
  have "b \<le> a"
  proof (rule ccontr)
    assume "\<not> b \<le> a"
    then have "(2::int) ^ a < 2 ^ b" by simp
    then have "(2::int) ^ a mod 2 ^ b = 2 ^ a" by simp
    with assms show False by simp
  qed
  then show ?thesis by (simp add: power_diff)
qed

lemma pow2_div_floor:
  fixes a b :: nat
  shows "(2::int) ^ a div 2 ^ b = (if b \<le> a then 2 ^ (a - b) else 0)"
  by (simp add: power_diff)

lemma Interface_init_eq:
  "Interface_init a d g =
     (if 0 \<le> a \<and> bus_accepts d g
      then Inr \<lparr>bus_addr_width = a, bus_data_width = d, bus_granularity = granularity_of d g\<rparr>
      else Inl ValueError)"
  by (cases g) (auto simp: Interface_init_def bus_accepts_def granularity_of_def)

lemma LiteDRAMNativePort_init_eq:
  "LiteDRAMNativePort_init a d =
     (if 0 < a \<and> power_of_two d
      then Inr \<lparr>port_addr_width = a, port_data_width = d\<rparr>
      else Inl ValueError)"
  unfolding LiteDRAMNativePort_init_def pow2_check by auto

lemma ratio_log2:
  assumes "power_of_two pw" and "power_of_two dw" and "pw mod dw = 0"
  shows "\<exists>l. log2_int (pw div dw) = Inr l \<and> pw div dw = 2 ^ l"
proof -
  from assms(1,2) obtain a b :: nat where ab: "pw = 2 ^ a" "dw = 2 ^ b"
    by (auto simp: power_of_two_def)
  with assms(3) have "pw div dw = 2 ^ (a - b)" using pow2_div [of a b] by simp
  then show ?thesis using log2_int_pow2 [of "a - b"] by auto
qed

lemma WritebackCache_init_checks:
  "WritebackCache_init port sz dw g =
     (if \<not> power_of_two sz then Inl ValueError
      else if \<not> power_of_two dw then Inl ValueError
      else if port_data_width port mod dw \<noteq> 0 then Inl ValueError
      else (case log2_int (port_data_width port div dw) of
              Inl e \<Rightarrow> Inl e
            | Inr l \<Rightarrow>
                (case Interface_init (port_addr_width port + int l) dw g of
                   Inl e \<Rightarrow> Inl e
                 | Inr bus \<Rightarrow> Inr \<lparr>cache_size = sz, dram_port = port, intr_bus = bus\<rparr>)))"
  unfolding WritebackCache_init_def pow2_check ..

lemma WritebackCache_init_reject:
  "\<not> (power_of_two sz \<and> power_of_two dw \<and> port_data_width port mod dw = 0) \<Longrightarrow>
   WritebackCache_init port sz dw g = Inl ValueError"
  by (simp only: WritebackCache_init_checks) (simp split: if_splits)

lemma WritebackCache_init_pass:
  "power_of_two sz \<Longrightarrow> power_of_two dw \<Longrightarrow> port_data_width port mod dw = 0 \<Longrightarrow>
   log2_int (port_data_width port div dw) = Inr l \<Longrightarrow>
   WritebackCache_init port sz dw g =
     (case Interface_init (port_addr_width port + int l) dw g of
        Inl e \<Rightarrow> Inl e
      | Inr bus \<Rightarrow> Inr \<lparr>cache_size = sz, dram_port = port, intr_bus = bus\<rparr>)"
  by (simp only: WritebackCache_init_checks) simp

lemma construct_reject:
  assumes "\<not> (claimed_valid aw pw sz dw \<and> bus_accepts dw g)"
  shows "construct aw pw sz dw g = Inl ValueError"
proof (cases "0 < aw \<and> power_of_two pw")
  case False
  then have "LiteDRAMNativePort_init aw pw = Inl ValueError"
    by (simp only: LiteDRAMNativePort_init_eq if_False)
  then show ?thesis by (simp add: construct_def)
next
  case port: True
  then have c: "construct aw pw sz dw g =
      WritebackCache_init \<lparr>port_addr_width = aw, port_data_width = pw\<rparr> sz dw g"
    by (simp add: construct_def LiteDRAMNativePort_init_eq)
  show ?thesis
  proof (cases "power_of_two sz \<and> power_of_two dw \<and> pw mod dw = 0")
    case False
    then show ?thesis using c WritebackCache_init_reject by simp
  next
    case True
    with port assms have nb: "\<not> bus_accepts dw g" by (simp add: claimed_valid_def)
    have "\<exists>l. log2_int (pw div dw) = Inr l \<and> pw div dw = 2 ^ l"
      by (rule ratio_log2) (use True port in simp_all)
    then obtain l where l: "log2_int (pw div dw) = Inr l" by (elim exE conjE)
    have "WritebackCache_init \<lparr>port_addr_width = aw, port_data_width = pw\<rparr> sz dw g =
        (case Interface_init (aw + int l) dw g of
           Inl e \<Rightarrow> Inl e
         | Inr bus \<Rightarrow> Inr \<lparr>cache_size = sz,
             dram_port = \<lparr>port_addr_width = aw, port_data_width = pw\<rparr>, intr_bus = bus\<rparr>)"
      using WritebackCache_init_pass [of sz dw "\<lparr>port_addr_width = aw, port_data_width = pw\<rparr>" l g]
        True l by simp
    moreover have "Interface_init (aw + int l) dw g = Inl ValueError"
      using nb by (simp add: Interface_init_eq)
    ultimately show ?thesis using c by simp
  qed
qed

lemma construct_accept:
  assumes "claimed_valid aw pw sz dw" and "bus_accepts dw g"
  shows "\<exists>l. log2_int (pw div dw) = Inr l \<and> pw div dw = 2 ^ l \<and>
     construct aw pw sz dw g =
       Inr \<lparr>cache_size = sz,
            dram_port = \<lparr>port_addr_width = aw, port_data_width = pw\<rparr>,
            intr_bus = \<lparr>bus_addr_width = aw + int l, bus_data_width = dw,
                        bus_granularity = granularity_of dw g\<rparr>\<rparr>"
proof -
  from assms(1) have v: "0 < aw" "power_of_two pw" "power_of_two sz" "power_of_two dw"
    "pw mod dw = 0" by (simp_all add: claimed_valid_def)
  have "\<exists>l. log2_int (pw div dw) = Inr l \<and> pw div dw = 2 ^ l"
    by (rule ratio_log2) (use v in simp_all)
  then obtain l where l: "log2_int (pw div dw) = Inr l" "pw div dw = 2 ^ l"
    by (elim exE conjE)
  have c: "construct aw pw sz dw g =
      WritebackCache_init \<lparr>port_addr_width = aw, port_data_width = pw\<rparr> sz dw g"
    using v by (simp add: construct_def LiteDRAMNativePort_init_eq)
  have "WritebackCache_init \<lparr>port_addr_width = aw, port_data_width = pw\<rparr> sz dw g =
        (case Interface_init (aw + int l) dw g of
           Inl e \<Rightarrow> Inl e
         | Inr bus \<Rightarrow> Inr \<lparr>cache_size = sz,
             dram_port = \<lparr>port_addr_width = aw, port_data_width = pw\<rparr>, intr_bus = bus\<rparr>)"
    using WritebackCache_init_pass [of sz dw "\<lparr>port_addr_width = aw, port_data_width = pw\<rparr>" l g]
      v l by simp
  moreover have "Interface_init (aw + int l) dw g =
      Inr \<lparr>bus_addr_width = aw + int l, bus_data_width = dw,
           bus_granularity = granularity_of dw g\<rparr>"
    using assms(2) v(1) by (simp add: Interface_init_eq)
  ultimately show ?thesis using c l by simp
qed

text \<open>
  Claim C8, amended. Construction succeeds exactly when the port address width is
  positive, the port data width, the cache size and the front data width are positive
  powers of two, the port data width is a multiple of the front data width, and the
  bus interface accepts the front data width and the granularity (data width one of
  8, 16, 32, 64; granularity absent, or one of 8, 16, 32, 64 and not greater than the
  data width). In every other case construction raises \<^verbatim>\<open>ValueError\<close> and yields no object.
\<close>

theorem construct_succeeds_iff:
  "(\<exists>c. construct aw pw sz dw g = Inr c) = (claimed_valid aw pw sz dw \<and> bus_accepts dw g)
   \<and> ((\<forall>c. construct aw pw sz dw g \<noteq> Inr c) = (construct aw pw sz dw g = Inl ValueError))"
proof (cases "claimed_valid aw pw sz dw \<and> bus_accepts dw g")
  case True
  then obtain c where "construct aw pw sz dw g = Inr c"
    using construct_accept [of aw pw sz dw g] by blast
  with True show ?thesis by simp
next
  case False
  then have "construct aw pw sz dw g = Inl ValueError" by (rule construct_reject)
  with False show ?thesis by simp
qed

text \<open>
  Claim C8 as stated fails: a configuration that satisfies every condition the claim
  lists (address width 25, port data width 128, cache size 8192, front data width 128,
  granularity 8) is rejected, because the bus interface takes no data width of 128.
\<close>

theorem construct_claimed_valid_counterexample:
  "claimed_valid 25 128 8192 128 \<and> construct 25 128 8192 128 (Some 8) = Inl ValueError"
proof -
  have "(128::int) = 2 ^ 7" and "(8192::int) = 2 ^ 13" by simp_all
  then have "power_of_two 128" and "power_of_two 8192"
    unfolding power_of_two_def by blast+
  then have v: "claimed_valid 25 128 8192 128" by (simp add: claimed_valid_def)
  have "\<not> bus_accepts 128 (Some 8)" by (simp add: bus_accepts_def)
  then have "construct 25 128 8192 128 (Some 8) = Inl ValueError"
    by (intro construct_reject) simp
  with v show ?thesis by (rule conjI)
qed

lemma construct_InrD:
  assumes "construct aw pw sz dw g = Inr c"
  shows "claimed_valid aw pw sz dw \<and> bus_accepts dw g \<and>
     (\<exists>l. log2_int (pw div dw) = Inr l \<and> pw div dw = 2 ^ l \<and>
        c = \<lparr>cache_size = sz,
             dram_port = \<lparr>port_addr_width = aw, port_data_width = pw\<rparr>,
             intr_bus = \<lparr>bus_addr_width = aw + int l, bus_data_width = dw,
                         bus_granularity = granularity_of dw g\<rparr>\<rparr>)"
proof (cases "claimed_valid aw pw sz dw \<and> bus_accepts dw g")
  case False
  then have "construct aw pw sz dw g = Inl ValueError" by (rule construct_reject)
  with assms show ?thesis by simp
next
  case True
  then have v: "claimed_valid aw pw sz dw" and b: "bus_accepts dw g" by simp_all
  from construct_accept [OF v b]
  obtain l where l: "log2_int (pw div dw) = Inr l" "pw div dw = 2 ^ l"
     "construct aw pw sz dw g =
       Inr \<lparr>cache_size = sz,
            dram_port = \<lparr>port_addr_width = aw, port_data_width = pw\<rparr>,
            intr_bus = \<lparr>bus_addr_width = aw + int l, bus_data_width = dw,
                        bus_granularity = granularity_of dw g\<rparr>\<rparr>"
    by (elim conjE exE)
  from l(3) assms have "c = \<lparr>cache_size = sz,
            dram_port = \<lparr>port_addr_width = aw, port_data_width = pw\<rparr>,
            intr_bus = \<lparr>bus_addr_width = aw + int l, bus_data_width = dw,
                        bus_granularity = granularity_of dw g\<rparr>\<rparr>" by simp
  with True l(1,2) show ?thesis by (intro conjI exI [of _ l]) simp_all
qed

lemma power_of_two_power: "power_of_two (2 ^ k)"
  unfolding power_of_two_def by (rule exI [of _ k]) simp

lemma granularity_pow2:
  assumes "bus_accepts dw g"
  shows "power_of_two (granularity_of dw g)"
proof -
  have p: "power_of_two 8" "power_of_two 16" "power_of_two 32" "power_of_two 64"
    using power_of_two_power [of 3] power_of_two_power [of 4] power_of_two_power [of 5]
      power_of_two_power [of 6] by simp_all
  from assms have "granularity_of dw g \<in> {8, 16, 32, 64}"
    by (cases g) (simp_all add: bus_accepts_def granularity_of_def)
  with p show ?thesis by (elim insertE) simp_all
qed

lemma lines_log2:
  assumes "power_of_two sz" and "power_of_two gr" and "power_of_two pw"
  shows "\<exists>l. log2_int (sz * gr div pw) = Inr l \<and> (0 < sz * gr div pw \<longrightarrow> sz * gr div pw = 2 ^ l)"
proof -
  from assms obtain s b a :: nat where e: "sz = 2 ^ s" "gr = 2 ^ b" "pw = 2 ^ a"
    unfolding power_of_two_def by (elim exE)
  have q: "sz * gr div pw = (if a \<le> s + b then 2 ^ (s + b - a) else 0)"
    using pow2_div_floor [of "s + b" a] by (simp add: e power_add)
  show ?thesis
  proof (cases "a \<le> s + b")
    case True
    with q have "sz * gr div pw = 2 ^ (s + b - a)" by simp
    then show ?thesis using log2_int_pow2 [of "s + b - a"] by simp
  next
    case False
    with q have "sz * gr div pw = 0" by simp
    then show ?thesis using log2_int_0 by simp
  qed
qed

lemma intr_adr_layout_facts:
  assumes "construct aw pw sz dw g = Inr c"
  shows "ratio c = pw div dw \<and> nb_lines c = sz * granularity_of dw g div pw \<and>
    (\<exists>ob lb. log2_int (ratio c) = Inr ob \<and> ratio c = 2 ^ ob \<and>
       log2_int (nb_lines c) = Inr lb \<and> (0 < nb_lines c \<longrightarrow> nb_lines c = 2 ^ lb) \<and>
       bus_addr_width (intr_bus c) = aw + int ob \<and>
       (if aw < int lb then intr_adr_layout c = Inl TypeError
        else (\<exists>l. intr_adr_layout c = Inr l \<and> offset_width l = int ob \<and> line_width l = int lb \<and>
                0 \<le> tag_width l \<and>
                offset_width l + line_width l + tag_width l = bus_addr_width (intr_bus c))))"
proof -
  from construct_InrD [OF assms] obtain ob where
    v: "claimed_valid aw pw sz dw" "bus_accepts dw g" and
    ob: "log2_int (pw div dw) = Inr ob" "pw div dw = 2 ^ ob" and
    c: "c = \<lparr>cache_size = sz,
             dram_port = \<lparr>port_addr_width = aw, port_data_width = pw\<rparr>,
             intr_bus = \<lparr>bus_addr_width = aw + int ob, bus_data_width = dw,
                         bus_granularity = granularity_of dw g\<rparr>\<rparr>"
    by (elim conjE exE)
  have r: "ratio c = pw div dw" and n: "nb_lines c = sz * granularity_of dw g div pw"
    by (simp_all add: c ratio_def nb_lines_def)
  from v have ps: "power_of_two sz" and pp: "power_of_two pw"
    by (simp_all add: claimed_valid_def)
  from lines_log2 [OF ps granularity_pow2 [OF v(2)] pp] obtain lb where
    lb: "log2_int (sz * granularity_of dw g div pw) = Inr lb"
      "0 < sz * granularity_of dw g div pw \<longrightarrow> sz * granularity_of dw g div pw = 2 ^ lb"
    by (elim exE conjE)
  have ro: "log2_int (ratio c) = Inr ob" using r ob(1) by simp
  have rp: "ratio c = 2 ^ ob" using r ob(2) by simp
  have nl: "log2_int (nb_lines c) = Inr lb" using n lb(1) by simp
  have np: "0 < nb_lines c \<longrightarrow> nb_lines c = 2 ^ lb" using n lb(2) by simp
  have a: "bus_addr_width (intr_bus c) = aw + int ob" by (simp add: c)
  have t: "bus_addr_width (intr_bus c) - int lb - int ob = aw - int lb" using a by simp
  have lay: "if aw < int lb then intr_adr_layout c = Inl TypeError
        else (\<exists>l. intr_adr_layout c = Inr l \<and> offset_width l = int ob \<and> line_width l = int lb \<and>
                0 \<le> tag_width l \<and>
                offset_width l + line_width l + tag_width l = bus_addr_width (intr_bus c))"
  proof (cases "aw < int lb")
    case True
    then have "intr_adr_layout c = Inl TypeError"
      by (simp add: intr_adr_layout_def ro nl t)
    with True show ?thesis by simp
  next
    case False
    then have e: "intr_adr_layout c = Inr \<lparr>offset_width = int ob, line_width = int lb,
        tag_width = aw - int lb\<rparr>"
      by (simp add: intr_adr_layout_def ro nl t)
    have "\<exists>l. intr_adr_layout c = Inr l \<and> offset_width l = int ob \<and> line_width l = int lb \<and>
            0 \<le> tag_width l \<and>
            offset_width l + line_width l + tag_width l = bus_addr_width (intr_bus c)"
      by (rule exI [of _ "\<lparr>offset_width = int ob, line_width = int lb,
          tag_width = aw - int lb\<rparr>"]) (use False e a in simp)
    with False show ?thesis by simp
  qed
  with ro rp nl np a have "\<exists>ob lb. log2_int (ratio c) = Inr ob \<and> ratio c = 2 ^ ob \<and>
       log2_int (nb_lines c) = Inr lb \<and> (0 < nb_lines c \<longrightarrow> nb_lines c = 2 ^ lb) \<and>
       bus_addr_width (intr_bus c) = aw + int ob \<and>
       (if aw < int lb then intr_adr_layout c = Inl TypeError
        else (\<exists>l. intr_adr_layout c = Inr l \<and> offset_width l = int ob \<and> line_width l = int lb \<and>
                0 \<le> tag_width l \<and>
                offset_width l + line_width l + tag_width l = bus_addr_width (intr_bus c)))"
    by (intro exI [of _ ob] exI [of _ lb] conjI)
  with r n show ?thesis by (intro conjI)
qed

lemma nb_lines_nonneg:
  assumes "construct aw pw sz dw g = Inr c"
  shows "0 \<le> nb_lines c"
proof -
  from construct_InrD [OF assms] obtain ob where
    v: "claimed_valid aw pw sz dw" "bus_accepts dw g" and
    c: "c = \<lparr>cache_size = sz,
             dram_port = \<lparr>port_addr_width = aw, port_data_width = pw\<rparr>,
             intr_bus = \<lparr>bus_addr_width = aw + int ob, bus_data_width = dw,
                         bus_granularity = granularity_of dw g\<rparr>\<rparr>"
    by (elim conjE exE)
  from v(1) have "0 < sz" "0 < pw" by (auto simp: claimed_valid_def power_of_two_def)
  moreover from granularity_pow2 [OF v(2)] have "0 < granularity_of dw g"
    by (auto simp: power_of_two_def)
  ultimately have "0 \<le> sz * granularity_of dw g div pw"
    by (simp add: pos_imp_zdiv_nonneg_iff)
  then show ?thesis by (simp add: c nb_lines_def)
qed

text \<open>
  Claim C9, amended. For every configuration that construction accepts, with
  \<open>ratio = port width div front width\<close> and
  \<open>nb_lines = (size * granularity) div port width\<close>: \<open>log2_int\<close> gives the offset width
  with \<open>ratio = 2 ^ offset\<close> and the line width with \<open>nb_lines = 2 ^ line\<close> when there is
  a line at all, and the address width of the front-end bus is the port address width plus
  the offset width. When the port address width is less than the line width, building the
  address record raises \<^verbatim>\<open>TypeError\<close>, because the tag field would have a negative
  width; otherwise the record has an offset and a line field of these widths and a tag
  field of a width that is not negative, and the three widths add up to the address width
  of the front-end bus.
\<close>

theorem intr_adr_layout_widths:
  assumes "construct aw pw sz dw g = Inr c"
  shows "ratio c = pw div dw \<and> nb_lines c = sz * granularity_of dw g div pw \<and>
    (\<exists>ob lb. log2_int (ratio c) = Inr ob \<and> ratio c = 2 ^ ob \<and>
       log2_int (nb_lines c) = Inr lb \<and> (0 < nb_lines c \<longrightarrow> nb_lines c = 2 ^ lb) \<and>
       bus_addr_width (intr_bus c) = aw + int ob \<and>
       (if aw < int lb then intr_adr_layout c = Inl TypeError
        else (\<exists>l. intr_adr_layout c = Inr l \<and> offset_width l = int ob \<and> line_width l = int lb \<and>
                0 \<le> tag_width l \<and>
                offset_width l + line_width l + tag_width l = bus_addr_width (intr_bus c))))"
  using assms by (rule intr_adr_layout_facts)

lemma construct_test_cache: "construct 23 32 8 16 (Some 8) = Inr test_cache"
proof -
  have "power_of_two 32" and "power_of_two 8" and "power_of_two 16"
    using power_of_two_power [of 5] power_of_two_power [of 3] power_of_two_power [of 4]
    by simp_all
  then have v: "claimed_valid 23 32 8 16" by (simp add: claimed_valid_def)
  have b: "bus_accepts 16 (Some 8)" by (simp add: bus_accepts_def)
  have l: "log2_int (32 div 16) = Inr 1" using log2_int_pow2 [of 1] by simp
  from construct_accept [OF v b] obtain k where
    k: "log2_int (32 div 16) = Inr k" and
    r: "construct 23 32 8 16 (Some 8) =
       Inr \<lparr>cache_size = 8,
            dram_port = \<lparr>port_addr_width = 23, port_data_width = 32\<rparr>,
            intr_bus = \<lparr>bus_addr_width = 23 + int k, bus_data_width = 16,
                        bus_granularity = granularity_of 16 (Some 8)\<rparr>\<rparr>"
    by (elim exE conjE)
  from k l have "k = 1" by simp
  with r show ?thesis by (simp add: granularity_of_def test_cache_def)
qed

lemma layout_test_cache:
  "intr_adr_layout test_cache = Inr \<lparr>offset_width = 1, line_width = 1, tag_width = 22\<rparr>"
proof -
  have "log2_int 2 = Inr 1" using log2_int_pow2 [of 1] by simp
  then show ?thesis
    by (simp add: intr_adr_layout_def ratio_def nb_lines_def test_cache_def)
qed

text \<open>
  The configuration of the test case (23, 32, 8, 16, 8): ratio 2, two lines, and fields
  of 1, 1 and 22 bits in an address of 24.
\<close>

theorem intr_adr_layout_widths_witness:
  "construct 23 32 8 16 (Some 8) = Inr test_cache
   \<and> ratio test_cache = 2 \<and> nb_lines test_cache = 2
   \<and> intr_adr_layout test_cache = Inr \<lparr>offset_width = 1, line_width = 1, tag_width = 22\<rparr>
   \<and> bus_addr_width (intr_bus test_cache) = 24"
proof -
  note w = intr_adr_layout_widths [OF construct_test_cache]
  from w have "ratio test_cache = 32 div 16" by (rule conjunct1)
  then have r: "ratio test_cache = 2" by simp
  from w have "nb_lines test_cache = 8 * granularity_of 16 (Some 8) div 32"
    by (rule conjunct1 [OF conjunct2])
  then have n: "nb_lines test_cache = 2" by (simp add: granularity_of_def)
  have a: "bus_addr_width (intr_bus test_cache) = 24" by (simp add: test_cache_def)
  from construct_test_cache r n layout_test_cache a show ?thesis by (intro conjI)
qed

lemma construct_narrow_cache: "construct 2 16 8 16 (Some 16) = Inr narrow_cache"
proof -
  have "power_of_two 16" and "power_of_two 8"
    using power_of_two_power [of 4] power_of_two_power [of 3] by simp_all
  then have v: "claimed_valid 2 16 8 16" by (simp add: claimed_valid_def)
  have b: "bus_accepts 16 (Some 16)" by (simp add: bus_accepts_def)
  have l: "log2_int (16 div 16) = Inr 0" using log2_int_pow2 [of 0] by simp
  from construct_accept [OF v b] obtain k where
    k: "log2_int (16 div 16) = Inr k" and
    r: "construct 2 16 8 16 (Some 16) =
       Inr \<lparr>cache_size = 8,
            dram_port = \<lparr>port_addr_width = 2, port_data_width = 16\<rparr>,
            intr_bus = \<lparr>bus_addr_width = 2 + int k, bus_data_width = 16,
                        bus_granularity = granularity_of 16 (Some 16)\<rparr>\<rparr>"
    by (elim exE conjE)
  from k l have "k = 0" by simp
  with r show ?thesis by (simp add: granularity_of_def narrow_cache_def)
qed

text \<open>
  Claim C9 as stated fails. The configuration (2, 16, 8, 16, 16) meets every condition of
  validity the specification lists and is constructed, with ratio 1 and 8 lines; the line
  field takes 3 bits of an address of 2 bits, the tag field would be -1 bits wide, and
  the address record is not built: there are no three widths to add up.
\<close>

theorem narrow_address_counterexample:
  "claimed_valid 2 16 8 16 \<and> construct 2 16 8 16 (Some 16) = Inr narrow_cache
   \<and> ratio narrow_cache = 1 \<and> nb_lines narrow_cache = 8
   \<and> intr_adr_layout narrow_cache = Inl TypeError"
proof -
  have "power_of_two 16" and "power_of_two 8"
    using power_of_two_power [of 4] power_of_two_power [of 3] by simp_all
  then have v: "claimed_valid 2 16 8 16" by (simp add: claimed_valid_def)
  have r: "ratio narrow_cache = 1" and n: "nb_lines narrow_cache = 8"
    by (simp_all add: ratio_def nb_lines_def narrow_cache_def)
  have "log2_int 1 = Inr 0" and "log2_int 8 = Inr 3"
    using log2_int_pow2 [of 0] log2_int_pow2 [of 3] by simp_all
  then have "intr_adr_layout narrow_cache = Inl TypeError"
    by (simp add: intr_adr_layout_def r n) (simp add: narrow_cache_def)
  with v construct_narrow_cache r n show ?thesis by (intro conjI)
qed

subsection \<open>The registers after one tick\<close>

lemma step_fsm [simp]: "fsm (step p s i) = next_fsm p s i"
  by (simp add: step_def)

lemma step_r_cyc [simp]:
  "intr_bus_r_cyc (step p s i) =
     (if fsm s = CHECK then (if miss p s i then False else cyc i) else intr_bus_r_cyc s)"
  by (simp add: step_def)

lemma step_r_stb [simp]:
  "intr_bus_r_stb (step p s i) =
     (if fsm s = CHECK then (if miss p s i then False else stb i) else intr_bus_r_stb s)"
  by (simp add: step_def)

lemma step_r_adr [simp]:
  "intr_bus_r_adr (step p s i) =
     (if fsm s = CHECK then adr i mod 2 ^ adr_bits p else intr_bus_r_adr s)"
  by (simp add: step_def)

lemma step_tag_rp [simp]:
  "tag_rp_data (step p s i) = (if rp_en p s i then tag_mem s (rp_addr p s i) else tag_rp_data s)"
  by (simp add: step_def)

lemma step_dat_rp [simp]:
  "dat_rp_data (step p s i) = (if rp_en p s i then dat_mem s (rp_addr p s i) else dat_rp_data s)"
  by (simp add: step_def)

lemma step_tag_mem [simp]:
  "tag_mem (step p s i) =
     (if tag_wp_en p s i \<and> wp_addr p s i < depth p
      then (tag_mem s)(wp_addr p s i := tag_wp_data p s i) else tag_mem s)"
  by (simp add: step_def)

lemma step_evict_done_cmd [simp]:
  "evict_done_cmd (step p s i) =
        (if fsm s = EVICT
         then (if cmd_valid s \<and> cmd_ready i then True
               else if evict_done_cmd s \<and> evict_done_w s then False
               else evict_done_cmd s)
         else evict_done_cmd s)"
  by (simp add: step_def)

lemma step_evict_done_w [simp]:
  "evict_done_w (step p s i) =
        (if fsm s = EVICT
         then (if w_valid s \<and> w_ready i then True
               else if evict_done_cmd s \<and> evict_done_w s then False
               else evict_done_w s)
         else evict_done_w s)"
  by (simp add: step_def)

lemma step_refill_done_cmd [simp]:
  "refill_done_cmd (step p s i) =
        (if fsm s = REFILL
         then (if cmd_valid s \<and> cmd_ready i then True
               else if refill_done_cmd s \<and> refill_done_r s then False
               else refill_done_cmd s)
         else refill_done_cmd s)"
  by (simp add: step_def)

lemma step_refill_done_r [simp]:
  "refill_done_r (step p s i) =
        (if fsm s = REFILL
         then (if r_valid i \<and> r_ready s then True
               else if refill_done_cmd s \<and> refill_done_r s then False
               else refill_done_r s)
         else refill_done_r s)"
  by (simp add: step_def)

subsection \<open>Invariants of the reachable states\<close>

lemma idle_r_outside_CHECK:
  "reachable p s \<Longrightarrow> fsm s \<noteq> CHECK \<Longrightarrow> \<not> intr_bus_r_cyc s \<and> \<not> intr_bus_r_stb s"
proof (induction rule: reachable.induct)
  case reach_init
  then show ?case by (simp add: init_state_def)
next
  case (reach_step s i)
  then show ?case
    by (cases "fsm s") (auto simp: next_fsm_def split: if_splits)
qed

lemma done_flags_outside:
  "reachable p s \<Longrightarrow>
     (fsm s \<noteq> EVICT \<longrightarrow> \<not> evict_done_cmd s \<and> \<not> evict_done_w s) \<and>
     (fsm s \<noteq> REFILL \<longrightarrow> \<not> refill_done_cmd s \<and> \<not> refill_done_r s)"
proof (induction rule: reachable.induct)
  case reach_init
  then show ?case by (simp add: init_state_def)
next
  case (reach_step s i)
  then show ?case
    by (cases "fsm s") (auto simp: next_fsm_def cmd_valid_def w_valid_def r_ready_def split: if_splits)
qed

subsection \<open>Acknowledge, hit and miss in CHECK\<close>

lemma read_before_miss:
  assumes "reachable p s0" and "miss p (step p s0 i0) i"
  shows "fsm s0 = CHECK \<and> rp_en p s0 i0"
proof -
  from assms(2) have r: "intr_bus_r_cyc (step p s0 i0)" "intr_bus_r_stb (step p s0 i0)"
    unfolding miss_def by blast+
  have c: "fsm s0 = CHECK"
  proof (rule ccontr)
    assume "fsm s0 \<noteq> CHECK"
    with idle_r_outside_CHECK [OF assms(1)] r show False by simp
  qed
  have nm: "\<not> miss p s0 i0" using r c by (cases "miss p s0 i0") simp_all
  with r c have a: "cyc i0" "stb i0" by simp_all
  have "rp_en p s0 i0"
  proof (cases "intr_bus_r_cyc s0 \<and> intr_bus_r_stb s0")
    case False
    with a c show ?thesis by (auto simp: rp_en_def)
  next
    case True
    with nm a c have "tag_match p s0 i0" by (simp add: miss_def)
    with True a c have "ack p s0 i0" by (simp add: ack_def)
    with a c show ?thesis by (simp add: rp_en_def)
  qed
  with c show ?thesis by simp
qed

text \<open>
  Claim C5, amended. In CHECK, when a front-end request is active, the registered
  \<^verbatim>\<open>cyc\<close> and \<^verbatim>\<open>stb\<close> are set and the tag of the address presented on this tick differs
  from the tag that the TagStore read port delivers, the controller clears the registered
  \<^verbatim>\<open>cyc\<close> and \<^verbatim>\<open>stb\<close> and leaves CHECK, for EVICT when the dirty bit that the read port
  delivers is set and for REFILL when it is clear; and the FSM leaves CHECK in no other
  case. When the previous tick read the requested line and committed no write to it, the
  read port delivers the stored entry of that line, and the controller goes to EVICT when
  the dirty bit of the stored line is set, to REFILL when it is clear.
\<close>

theorem miss_leaves_CHECK:
  assumes "fsm s = CHECK"
  shows "(cyc i \<and> stb i \<and> intr_bus_r_cyc s \<and> intr_bus_r_stb s
            \<and> adr_tag p (adr i) \<noteq> tag (tag_rp_data s) \<longrightarrow>
          \<not> intr_bus_r_cyc (step p s i) \<and> \<not> intr_bus_r_stb (step p s i)
          \<and> fsm (step p s i) = (if dirty (tag_rp_data s) then EVICT else REFILL))
       \<and> (fsm (step p s i) \<noteq> CHECK \<longrightarrow>
            cyc i \<and> stb i \<and> intr_bus_r_cyc s \<and> intr_bus_r_stb s
            \<and> adr_tag p (adr i) \<noteq> tag (tag_rp_data s))
       \<and> (\<forall>s0 i0. reachable p s0 \<and> s = step p s0 i0 \<and> miss p s i
            \<and> rp_addr p s0 i0 = adr_line p (adr i)
            \<and> \<not> (tag_wp_en p s0 i0 \<and> wp_addr p s0 i0 = adr_line p (adr i)) \<longrightarrow>
            tag_rp_data s = tag_mem s (adr_line p (adr i))
            \<and> fsm (step p s i) = (if dirty (tag_mem s (adr_line p (adr i))) then EVICT else REFILL))"
proof (intro conjI allI impI)
  assume "cyc i \<and> stb i \<and> intr_bus_r_cyc s \<and> intr_bus_r_stb s
            \<and> adr_tag p (adr i) \<noteq> tag (tag_rp_data s)"
  with assms show "\<not> intr_bus_r_cyc (step p s i)" and "\<not> intr_bus_r_stb (step p s i)"
    and "fsm (step p s i) = (if dirty (tag_rp_data s) then EVICT else REFILL)"
    by (auto simp: next_fsm_def miss_def tag_match_def)
next
  assume "fsm (step p s i) \<noteq> CHECK"
  with assms show "cyc i" and "stb i" and "intr_bus_r_cyc s" and "intr_bus_r_stb s"
    and "adr_tag p (adr i) \<noteq> tag (tag_rp_data s)"
    by (auto simp: next_fsm_def miss_def tag_match_def split: if_splits)
next
  fix s0 i0
  assume a: "reachable p s0 \<and> s = step p s0 i0 \<and> miss p s i
            \<and> rp_addr p s0 i0 = adr_line p (adr i)
            \<and> \<not> (tag_wp_en p s0 i0 \<and> wp_addr p s0 i0 = adr_line p (adr i))"
  then have r: "reachable p s0" and s: "s = step p s0 i0" and m0: "miss p s i"
    and ra: "rp_addr p s0 i0 = adr_line p (adr i)"
    and nw: "\<not> (tag_wp_en p s0 i0 \<and> wp_addr p s0 i0 = adr_line p (adr i))"
    by blast+
  from m0 have m: "miss p (step p s0 i0) i" by (simp only: s)
  from read_before_miss [OF r m] have en: "rp_en p s0 i0" by simp
  have "tag_rp_data (step p s0 i0) = tag_mem s0 (adr_line p (adr i))"
    using en ra by simp
  moreover have "tag_mem (step p s0 i0) (adr_line p (adr i)) = tag_mem s0 (adr_line p (adr i))"
    using nw by auto
  ultimately show e: "tag_rp_data s = tag_mem s (adr_line p (adr i))" by (simp only: s)
  from m0 have "next_fsm p s i = (if dirty (tag_rp_data s) then EVICT else REFILL)"
    using assms by (simp add: next_fsm_def)
  then show "fsm (step p s i) = (if dirty (tag_mem s (adr_line p (adr i))) then EVICT else REFILL)"
    by (simp only: e step_fsm)
qed

lemma adr_tag_mod: "adr_tag p (a mod 2 ^ adr_bits p) = adr_tag p a"
proof -
  have "a mod 2 ^ (offset_bits p + line_bits p + tag_bits p) div 2 ^ (offset_bits p + line_bits p)
      = a div 2 ^ (offset_bits p + line_bits p) mod 2 ^ tag_bits p"
    by (metis drop_bit_eq_div drop_bit_take_bit take_bit_eq_mod add_diff_cancel_left')
  then show ?thesis by (simp add: adr_tag_def adr_bits_def)
qed

text \<open>
  Claim C1, amended. The acknowledge of a tick is asserted exactly when, on the previous
  tick, the controller was in CHECK with an active request that was not declared a miss
  (so the registered \<^verbatim>\<open>cyc\<close> and \<^verbatim>\<open>stb\<close> are set), a request is active on this tick, and
  the tag of the address presented on this tick equals the tag read from the TagStore on
  the previous tick. A request is therefore never acknowledged on a tick that follows a
  tick without an active request. The registered address is the address of the previous
  tick, so its tag is the compared one whenever the requester has held the address.
\<close>

theorem ack_after_tick:
  assumes "reachable p s"
  shows "ack p (step p s i) i' =
           (fsm s = CHECK \<and> cyc i \<and> stb i \<and> \<not> miss p s i \<and> cyc i' \<and> stb i'
            \<and> adr_tag p (adr i') = tag (tag_mem s (rp_addr p s i)))
       \<and> (fsm s = CHECK \<longrightarrow> intr_adr_r_tag p (step p s i) = adr_tag p (adr i))"
proof (intro conjI impI)
  show "fsm s = CHECK \<Longrightarrow> intr_adr_r_tag p (step p s i) = adr_tag p (adr i)"
    by (simp add: intr_adr_r_tag_def adr_tag_mod)
next
  show "ack p (step p s i) i' =
           (fsm s = CHECK \<and> cyc i \<and> stb i \<and> \<not> miss p s i \<and> cyc i' \<and> stb i'
            \<and> adr_tag p (adr i') = tag (tag_mem s (rp_addr p s i)))"
  proof (cases "fsm s = CHECK")
    case False
    with idle_r_outside_CHECK [OF assms] show ?thesis by (simp add: ack_def)
  next
    case True
    show ?thesis
    proof (cases "cyc i \<and> stb i \<and> \<not> miss p s i")
      case False
      with True show ?thesis by (auto simp: ack_def)
    next
      case ok: True
      with True have en: "rp_en p s i" by (auto simp: rp_en_def miss_def ack_def)
      from ok True have "next_fsm p s i = CHECK" by (simp add: next_fsm_def)
      with ok True en show ?thesis by (simp add: ack_def tag_match_def)
    qed
  qed
qed

subsection \<open>Registers held during miss handling\<close>

lemma adr_line_mod: "adr_line p (a mod 2 ^ adr_bits p) = adr_line p a"
proof -
  have "a mod 2 ^ (offset_bits p + (line_bits p + tag_bits p)) div 2 ^ offset_bits p
      = a div 2 ^ offset_bits p mod 2 ^ (line_bits p + tag_bits p)"
    by (metis drop_bit_eq_div drop_bit_take_bit take_bit_eq_mod add_diff_cancel_left')
  moreover have "a div 2 ^ offset_bits p mod 2 ^ (line_bits p + tag_bits p) mod 2 ^ line_bits p
      = a div 2 ^ offset_bits p mod 2 ^ line_bits p"
    by (simp add: mod_mod_cancel le_imp_power_dvd)
  ultimately show ?thesis by (simp add: adr_line_def adr_bits_def add.assoc)
qed

lemma no_read_outside_CHECK: "fsm s \<noteq> CHECK \<Longrightarrow> \<not> rp_en p s i"
  by (simp add: rp_en_def)

lemma busy_states_frame:
  "s' \<in> set (busy_states p s is) \<Longrightarrow>
     fsm s' \<noteq> CHECK \<and> intr_bus_r_adr s' = intr_bus_r_adr s
     \<and> intr_bus_r_cyc s' = intr_bus_r_cyc s \<and> intr_bus_r_stb s' = intr_bus_r_stb s
     \<and> tag_rp_data s' = tag_rp_data s \<and> dat_rp_data s' = dat_rp_data s"
proof (induction "is" arbitrary: s)
  case Nil
  then show ?case by (simp split: if_splits)
next
  case (Cons i "is")
  show ?case
  proof (cases "fsm s = CHECK")
    case True
    with Cons.prems show ?thesis by simp
  next
    case False
    with Cons.prems have "s' = s \<or> s' \<in> set (busy_states p (step p s i) is)" by simp
    then show ?thesis
    proof
      assume "s' = s"
      with False show ?thesis by simp
    next
      assume "s' \<in> set (busy_states p (step p s i) is)"
      from Cons.IH [OF this] False show ?thesis by (simp add: no_read_outside_CHECK)
    qed
  qed
qed

text \<open>
  Claim C6. The front-end acknowledge is never asserted while the controller is in EVICT
  or REFILL: on no tick between leaving CHECK and returning to it is a request
  acknowledged, whatever the inputs.
\<close>

theorem no_ack_outside_CHECK:
  "(fsm s = EVICT \<or> fsm s = REFILL \<longrightarrow> \<not> ack p s i)
   \<and> (\<forall>s' \<in> set (busy_states p s is). \<not> ack p s' i)"
proof (intro conjI impI ballI)
  assume "fsm s = EVICT \<or> fsm s = REFILL"
  then show "\<not> ack p s i" by (auto simp: ack_def)
next
  fix s' assume "s' \<in> set (busy_states p s is)"
  from busy_states_frame [OF this] show "\<not> ack p s' i" by (simp add: ack_def)
qed


subsection \<open>The refill commit\<close>

lemma busy_states_reachable:
  "reachable p s \<Longrightarrow> s' \<in> set (busy_states p s is) \<Longrightarrow> reachable p s'"
proof (induction "is" arbitrary: s)
  case Nil
  then show ?case by (simp split: if_splits)
next
  case (Cons i "is")
  from Cons.prems(2) have "s' = s \<or> s' \<in> set (busy_states p (step p s i) is)"
    by (simp split: if_splits)
  then show ?case
  proof
    assume "s' = s"
    with Cons.prems(1) show ?thesis by simp
  next
    assume "s' \<in> set (busy_states p (step p s i) is)"
    with Cons.IH [OF reach_step [OF Cons.prems(1)]] show ?thesis by simp
  qed
qed

lemma registered_after_miss:
  assumes "miss p s0 i0" and "s \<in> set (busy_states p (step p s0 i0) is)"
  shows "intr_adr_r_line p s = adr_line p (adr i0)" and "intr_adr_r_tag p s = adr_tag p (adr i0)"
proof -
  from assms(1) have "fsm s0 = CHECK" by (simp add: miss_def)
  with busy_states_frame [OF assms(2)]
  have "intr_bus_r_adr s = adr i0 mod 2 ^ adr_bits p" by simp
  then show "intr_adr_r_line p s = adr_line p (adr i0)"
    and "intr_adr_r_tag p s = adr_tag p (adr i0)"
    by (simp_all add: intr_adr_r_line_def intr_adr_r_tag_def adr_line_mod adr_tag_mod)
qed

lemma refill_commit_inv:
  "reachable p s \<Longrightarrow> depth p = 2 ^ line_bits p \<Longrightarrow> fsm s = REFILL \<Longrightarrow> refill_done_r s \<Longrightarrow>
     tag_mem s (intr_adr_r_line p s) = \<lparr>tag = intr_adr_r_tag p s, dirty = False\<rparr>"
proof (induction rule: reachable.induct)
  case reach_init
  then show ?case by (simp add: init_state_def)
next
  case (reach_step s i)
  note fl = done_flags_outside [OF reach_step.hyps]
  have lt: "intr_adr_r_line p s < depth p"
    using reach_step.prems(1) by (simp add: intr_adr_r_line_def adr_line_def)
  show ?case
  proof (cases "fsm s")
    case CHECK
    with fl reach_step.prems show ?thesis by simp
  next
    case EVICT
    with fl reach_step.prems show ?thesis by simp
  next
    case REFILL
    show ?thesis
    proof (cases "r_valid i \<and> r_ready s")
      case True
      with REFILL lt show ?thesis
        by (simp add: tag_wp_en_def wp_addr_def tag_wp_data_def intr_adr_r_line_def
            intr_adr_r_tag_def)
    next
      case False
      with REFILL reach_step.prems have d: "refill_done_r s" by (simp split: if_splits)
      from False REFILL have "\<not> tag_wp_en p s i" by (simp add: tag_wp_en_def)
      with reach_step.IH [OF reach_step.prems(1) REFILL d] REFILL show ?thesis
        by (simp add: intr_adr_r_line_def intr_adr_r_tag_def)
    qed
  qed
qed

lemma refill_commit_target:
  assumes "reachable p s0" and "miss p s0 i0" and "depth p = 2 ^ line_bits p"
    and "s \<in> set (busy_states p (step p s0 i0) is)" and "fsm s = REFILL"
  shows "(fsm (step p s i) = CHECK \<longrightarrow>
            tag_mem (step p s i) (adr_line p (adr i0)) = \<lparr>tag = adr_tag p (adr i0), dirty = False\<rparr>)
       \<and> (r_valid i \<and> r_ready s \<longrightarrow>
            tag_mem (step p s i) (adr_line p (adr i0)) = \<lparr>tag = adr_tag p (adr i0), dirty = False\<rparr>
            \<and> refill_done_r (step p s i))
       \<and> (refill_done_r (step p s i) \<and> \<not> refill_done_r s \<longrightarrow> r_valid i \<and> r_ready s)"
proof (intro conjI impI)
  note rg = registered_after_miss [OF assms(2,4)]
  have rs: "reachable p s"
    using busy_states_reachable [OF reach_step [OF assms(1)] assms(4)] .
  have lt: "adr_line p (adr i0) < depth p" using assms(3) by (simp add: adr_line_def)
  {
    assume "fsm (step p s i) = CHECK"
    with assms(5) have d: "refill_done_cmd s" "refill_done_r s"
      by (simp_all add: next_fsm_def split: if_splits)
    then have "\<not> tag_wp_en p s i" using assms(5) by (simp add: tag_wp_en_def r_ready_def)
    with refill_commit_inv [OF rs assms(3,5) d(2)] rg
    show "tag_mem (step p s i) (adr_line p (adr i0)) = \<lparr>tag = adr_tag p (adr i0), dirty = False\<rparr>"
      by simp
  }
  {
    assume "r_valid i \<and> r_ready s"
    with assms(5) rg lt
    show "tag_mem (step p s i) (adr_line p (adr i0)) = \<lparr>tag = adr_tag p (adr i0), dirty = False\<rparr>"
      by (simp add: tag_wp_en_def wp_addr_def tag_wp_data_def)
  }
  {
    assume "r_valid i \<and> r_ready s"
    with assms(5) show "refill_done_r (step p s i)" by simp
  }
  {
    assume "refill_done_r (step p s i) \<and> \<not> refill_done_r s"
    with assms(5) show "r_valid i" and "r_ready s" by (simp_all split: if_splits)
  }
qed

subsection \<open>A run of the test configuration\<close>

lemmas eval_defs = step_def next_fsm_def miss_def ack_def tag_match_def rp_en_def rp_addr_def
  wp_addr_def tag_wp_en_def tag_wp_data_def dat_wp_en_def dat_wp_data_def r_ready_def
  cmd_valid_def w_valid_def adr_tag_def adr_line_def adr_offset_def adr_bits_def
  intr_adr_next_def wrap_next_def intr_adr_r_line_def intr_adr_r_tag_def wp_lanes_def
  sel_lanes_def test_elab_def init_state_def request_def idle_def word_select_def
  refill_cmd_def refill_beat_def

lemma write_lanes_pos:
  "0 < n \<Longrightarrow> write_lanes g n en d old =
     write_lanes g (n - 1) en d old
     + (if odd (en div 2 ^ (n - 1)) then word_select d (n - 1) g else word_select old (n - 1) g)
       * 2 ^ ((n - 1) * g)"
  by (cases n) simp_all

lemma reachable_run: "reachable p s \<Longrightarrow> reachable p (run p s is)"
  by (induction "is" arbitrary: s) (simp_all add: reach_step)

lemma miss_state_eq:
  "miss_state =
     \<lparr>fsm = CHECK, intr_bus_r_cyc = True, intr_bus_r_stb = True, intr_bus_r_adr = 4,
      evict_done_cmd = False, evict_done_w = False,
      refill_done_cmd = False, refill_done_r = False,
      tag_mem = (\<lambda>_. \<lparr>tag = 0, dirty = False\<rparr>), dat_mem = (\<lambda>_. 0),
      tag_rp_data = \<lparr>tag = 0, dirty = False\<rparr>, dat_rp_data = 0\<rparr>"
  unfolding miss_state_def by (simp add: eval_defs)

lemma refill_state_eq:
  "refill_state =
     \<lparr>fsm = REFILL, intr_bus_r_cyc = False, intr_bus_r_stb = False, intr_bus_r_adr = 4,
      evict_done_cmd = False, evict_done_w = False,
      refill_done_cmd = False, refill_done_r = False,
      tag_mem = (\<lambda>_. \<lparr>tag = 0, dirty = False\<rparr>), dat_mem = (\<lambda>_. 0),
      tag_rp_data = \<lparr>tag = 0, dirty = False\<rparr>, dat_rp_data = 0\<rparr>"
  unfolding refill_state_def by (simp add: eval_defs)

lemma refilled_state_eq:
  "refilled_state =
     \<lparr>fsm = REFILL, intr_bus_r_cyc = False, intr_bus_r_stb = False, intr_bus_r_adr = 4,
      evict_done_cmd = False, evict_done_w = False,
      refill_done_cmd = True, refill_done_r = True,
      tag_mem = (\<lambda>_. \<lparr>tag = 0, dirty = False\<rparr>)(0 := \<lparr>tag = 1, dirty = False\<rparr>),
      dat_mem = (\<lambda>_. 0)(0 := 7),
      tag_rp_data = \<lparr>tag = 0, dirty = False\<rparr>, dat_rp_data = 0\<rparr>"
  unfolding refilled_state_def by (simp add: eval_defs write_lanes_pos)

lemma lookahead_state_eq:
  "lookahead_state =
     \<lparr>fsm = CHECK, intr_bus_r_cyc = True, intr_bus_r_stb = True, intr_bus_r_adr = 3,
      evict_done_cmd = False, evict_done_w = False,
      refill_done_cmd = False, refill_done_r = False,
      tag_mem = (\<lambda>_. \<lparr>tag = 0, dirty = False\<rparr>)(0 := \<lparr>tag = 1, dirty = False\<rparr>),
      dat_mem = (\<lambda>_. 0)(0 := 7),
      tag_rp_data = \<lparr>tag = 0, dirty = False\<rparr>, dat_rp_data = 0\<rparr>"
  unfolding lookahead_state_def by (simp add: eval_defs write_lanes_pos)

lemma burst_state_eq:
  "burst_state =
     \<lparr>fsm = CHECK, intr_bus_r_cyc = True, intr_bus_r_stb = True, intr_bus_r_adr = 3,
      evict_done_cmd = False, evict_done_w = False,
      refill_done_cmd = False, refill_done_r = False,
      tag_mem = (\<lambda>_. \<lparr>tag = 0, dirty = False\<rparr>)(0 := \<lparr>tag = 1, dirty = False\<rparr>),
      dat_mem = (\<lambda>_. 0)(0 := 7),
      tag_rp_data = \<lparr>tag = 1, dirty = False\<rparr>, dat_rp_data = 7\<rparr>"
  unfolding burst_state_def lookahead_state_eq by (simp add: eval_defs)

lemma reachable_lookahead_state: "reachable test_elab lookahead_state"
  unfolding lookahead_state_def by (rule reachable_run) (rule reach_init)

lemma reachable_refilled_state: "reachable test_elab refilled_state"
  unfolding refilled_state_def by (rule reachable_run) (rule reach_init)

subsection \<open>Witnesses and counterexamples on that run\<close>

text \<open>
  Claim C1 as stated fails. After a refill of line 0 with tag 1, the burst read of
  address 3 (tag 0, line 1) is acknowledged and the read ports look ahead to line 0; on
  the next tick address 4 (tag 1, line 0) is presented. The registered request is
  outstanding and its tag 0 differs from the tag 1 just read, yet the controller
  acknowledges: the comparison is made with the tag of the address on the bus.
\<close>

theorem lookahead_ack_counterexample:
  "fsm burst_state = CHECK \<and> cyc (request 4 INCR_BURST) \<and> stb (request 4 INCR_BURST)
   \<and> ack test_elab burst_state (request 4 INCR_BURST)
   \<and> \<not> claimed_hit test_elab burst_state"
  unfolding burst_state_eq by (simp add: claimed_hit_def eval_defs)

text \<open>
  The same two ticks as an instance of the theorem.
\<close>

theorem ack_after_tick_witness:
  "reachable test_elab lookahead_state \<and> fsm lookahead_state = CHECK
   \<and> ack test_elab (step test_elab lookahead_state (request 3 INCR_BURST)) (request 4 INCR_BURST)
   \<and> intr_adr_r_tag test_elab (step test_elab lookahead_state (request 3 INCR_BURST)) = 0"
  using ack_after_tick [OF reachable_lookahead_state, of "request 3 INCR_BURST" "request 4 INCR_BURST"]
    reachable_lookahead_state
  unfolding lookahead_state_eq by (simp add: eval_defs)

text \<open>
  Claim C5 as stated fails in the same state: the registered request is outstanding and
  its tag differs from the stored tag read, but the controller stays in CHECK and keeps
  the registered \<^verbatim>\<open>cyc\<close> and \<^verbatim>\<open>stb\<close> set.
\<close>

theorem lookahead_no_miss_counterexample:
  "fsm burst_state = CHECK \<and> claimed_miss test_elab burst_state
   \<and> fsm (step test_elab burst_state (request 4 INCR_BURST)) = CHECK
   \<and> intr_bus_r_cyc (step test_elab burst_state (request 4 INCR_BURST))
   \<and> intr_bus_r_stb (step test_elab burst_state (request 4 INCR_BURST))"
  unfolding burst_state_eq by (simp add: claimed_miss_def eval_defs)

text \<open>
  A clean miss: the second tick of a request for address 4 on the reset cache. The first
  tick read line 0 and wrote nothing, and the read port delivers the stored entry of
  line 0.
\<close>

theorem miss_leaves_CHECK_witness:
  "fsm miss_state = CHECK
   \<and> fsm (step test_elab miss_state (request 4 CLASSIC)) = REFILL
   \<and> \<not> intr_bus_r_cyc (step test_elab miss_state (request 4 CLASSIC))
   \<and> \<not> intr_bus_r_stb (step test_elab miss_state (request 4 CLASSIC))
   \<and> reachable test_elab init_state
   \<and> miss_state = step test_elab init_state (request 4 CLASSIC)
   \<and> miss test_elab miss_state (request 4 CLASSIC)
   \<and> rp_addr test_elab init_state (request 4 CLASSIC) = adr_line test_elab (adr (request 4 CLASSIC))
   \<and> \<not> tag_wp_en test_elab init_state (request 4 CLASSIC)
   \<and> adr_line test_elab (adr (request 4 CLASSIC)) = 0
   \<and> tag_rp_data miss_state = tag_mem miss_state 0"
proof -
  have c: "fsm miss_state = CHECK" by (simp add: miss_state_eq)
  have s: "miss_state = step test_elab init_state (request 4 CLASSIC)"
    by (simp add: miss_state_def)
  have m: "miss test_elab miss_state (request 4 CLASSIC)"
    unfolding miss_state_eq by (simp add: eval_defs)
  have a: "rp_addr test_elab init_state (request 4 CLASSIC)
      = adr_line test_elab (adr (request 4 CLASSIC))"
    and w: "\<not> tag_wp_en test_elab init_state (request 4 CLASSIC)"
    and l: "adr_line test_elab (adr (request 4 CLASSIC)) = 0"
    by (simp_all add: eval_defs)
  note t = miss_leaves_CHECK [OF c, of "request 4 CLASSIC" test_elab]
  from t have "tag_rp_data miss_state
      = tag_mem miss_state (adr_line test_elab (adr (request 4 CLASSIC)))"
    using reach_init [of test_elab] s m a w by blast
  then have r: "tag_rp_data miss_state = tag_mem miss_state 0" by (simp only: l)
  have f: "fsm (step test_elab miss_state (request 4 CLASSIC)) = REFILL
   \<and> \<not> intr_bus_r_cyc (step test_elab miss_state (request 4 CLASSIC))
   \<and> \<not> intr_bus_r_stb (step test_elab miss_state (request 4 CLASSIC))"
    using t unfolding miss_state_eq by (simp add: eval_defs)
  from c f reach_init [of test_elab] s m a w l r show ?thesis by blast
qed

lemma refilled_state_busy:
  "refilled_state \<in> set (busy_states test_elab refill_state
        [refill_cmd, refill_beat, request 4 CLASSIC, request 4 CLASSIC])"
proof -
  have f: "fsm refill_state \<noteq> CHECK" by (simp add: refill_state_eq)
  have g: "fsm (step test_elab refill_state refill_cmd) \<noteq> CHECK"
    unfolding refill_state_eq by (simp add: eval_defs)
  have r: "step test_elab (step test_elab refill_state refill_cmd) refill_beat = refilled_state"
    by (simp add: refilled_state_def refill_state_def)
  have h: "fsm refilled_state \<noteq> CHECK" by (simp add: refilled_state_eq)
  from f g h show ?thesis by (simp add: r)
qed

text \<open>
  The states after that miss, before and after the read beat, do not acknowledge the
  pending request.
\<close>

theorem no_ack_outside_CHECK_witness:
  "fsm refill_state = REFILL \<and> \<not> ack test_elab refill_state (request 4 CLASSIC)
   \<and> refilled_state \<in> set (busy_states test_elab refill_state
        [refill_cmd, refill_beat, request 4 CLASSIC, request 4 CLASSIC])
   \<and> \<not> ack test_elab refilled_state (request 4 CLASSIC)"
proof -
  have c: "fsm refill_state = REFILL" by (simp add: refill_state_eq)
  from no_ack_outside_CHECK [of refill_state test_elab "request 4 CLASSIC"
      "[refill_cmd, refill_beat, request 4 CLASSIC, request 4 CLASSIC]"] c refilled_state_busy
  show ?thesis by blast
qed


subsection \<open>One pass through EVICT\<close>

lemma evict_pass_left: "fsm s \<noteq> EVICT \<Longrightarrow> evict_pass p s is = []"
  by (cases "is") simp_all

lemma after_pass_left: "fsm s \<noteq> EVICT \<Longrightarrow> after_pass p s is = s"
  by (cases "is") simp_all

lemma evict_step:
  assumes "fsm s = EVICT"
  shows "fsm (step p s i) = (if evict_done_cmd s \<and> evict_done_w s then REFILL else EVICT)"
    and "evict_done_cmd (step p s i) =
          (if evict_done_cmd s \<and> evict_done_w s then False else evict_done_cmd s \<or> cmd_ready i)"
    and "evict_done_w (step p s i) =
          (if evict_done_cmd s \<and> evict_done_w s then False else evict_done_w s \<or> w_ready i)"
  using assms by (auto simp: next_fsm_def cmd_valid_def w_valid_def)

lemma cmd_count:
  "fsm s = EVICT \<Longrightarrow>
     length (filter cmd_fire (evict_pass p s is)) \<le> (if evict_done_cmd s then 0 else 1)
     \<and> (fsm (after_pass p s is) \<noteq> EVICT \<longrightarrow>
          length (filter cmd_fire (evict_pass p s is)) = (if evict_done_cmd s then 0 else 1)
          \<and> fsm (after_pass p s is) = REFILL
          \<and> \<not> evict_done_cmd (after_pass p s is) \<and> \<not> evict_done_w (after_pass p s is))"
proof (induction "is" arbitrary: s)
  case Nil
  then show ?case by simp
next
  case (Cons i "is")
  note st = evict_step [OF Cons.prems, of p i]
  show ?case
  proof (cases "evict_done_cmd s \<and> evict_done_w s")
    case True
    with st have l: "fsm (step p s i) \<noteq> EVICT" by simp
    from True Cons.prems have nf: "\<not> cmd_fire (s, i)" by (simp add: cmd_fire_def cmd_valid_def)
    from Cons.prems True st nf show ?thesis
      by (simp add: evict_pass_left [OF l] after_pass_left [OF l])
  next
    case False
    with st have e: "fsm (step p s i) = EVICT" by simp
    have f: "cmd_fire (s, i) = (\<not> evict_done_cmd s \<and> cmd_ready i)"
      using Cons.prems by (simp add: cmd_fire_def cmd_valid_def)
    from Cons.IH [OF e] False st(2) f Cons.prems show ?thesis
      by (auto split: if_splits)
  qed
qed

lemma w_count:
  "fsm s = EVICT \<Longrightarrow>
     length (filter w_fire (evict_pass p s is)) \<le> (if evict_done_w s then 0 else 1)
     \<and> (fsm (after_pass p s is) \<noteq> EVICT \<longrightarrow>
          length (filter w_fire (evict_pass p s is)) = (if evict_done_w s then 0 else 1))"
proof (induction "is" arbitrary: s)
  case Nil
  then show ?case by simp
next
  case (Cons i "is")
  note st = evict_step [OF Cons.prems, of p i]
  show ?case
  proof (cases "evict_done_cmd s \<and> evict_done_w s")
    case True
    with st have l: "fsm (step p s i) \<noteq> EVICT" by simp
    from True Cons.prems have nf: "\<not> w_fire (s, i)" by (simp add: w_fire_def w_valid_def)
    from Cons.prems True st nf show ?thesis
      by (simp add: evict_pass_left [OF l] after_pass_left [OF l])
  next
    case False
    with st have e: "fsm (step p s i) = EVICT" by simp
    have f: "w_fire (s, i) = (\<not> evict_done_w s \<and> w_ready i)"
      using Cons.prems by (simp add: w_fire_def w_valid_def)
    from Cons.IH [OF e] False st(3) f Cons.prems show ?thesis
      by (auto split: if_splits)
  qed
qed

lemma evict_pass_frame:
  "t \<in> set (evict_pass p s is) \<Longrightarrow>
     fsm (fst t) = EVICT \<and> intr_bus_r_adr (fst t) = intr_bus_r_adr s
     \<and> tag_rp_data (fst t) = tag_rp_data s \<and> dat_rp_data (fst t) = dat_rp_data s"
proof (induction "is" arbitrary: s)
  case Nil
  then show ?case by simp
next
  case (Cons i "is")
  show ?case
  proof (cases "fsm s = EVICT")
    case False
    with Cons.prems show ?thesis by simp
  next
    case True
    with Cons.prems have "t = (s, i) \<or> t \<in> set (evict_pass p (step p s i) is)" by simp
    then show ?thesis
    proof
      assume "t = (s, i)"
      with True show ?thesis by simp
    next
      assume "t \<in> set (evict_pass p (step p s i) is)"
      from Cons.IH [OF this] True show ?thesis by (simp add: no_read_outside_CHECK)
    qed
  qed
qed

lemma evict_pass_flags:
  "evict_pass p s is = pre @ t # post \<Longrightarrow>
     evict_done_cmd (fst t) = (evict_done_cmd s \<or> filter cmd_fire pre \<noteq> [])
     \<and> evict_done_w (fst t) = (evict_done_w s \<or> filter w_fire pre \<noteq> [])"
proof (induction pre arbitrary: s "is")
  case Nil
  then show ?case by (cases "is") (auto split: if_splits)
next
  case (Cons u pre)
  from Cons.prems obtain i is' where i: "is = i # is'" by (cases "is") auto
  from Cons.prems i have e: "fsm s = EVICT" and u: "u = (s, i)"
    and r: "evict_pass p (step p s i) is' = pre @ t # post"
    by (auto split: if_splits)
  from r have "fsm (step p s i) = EVICT" using evict_pass_left [of "step p s i" p is'] by auto
  with evict_step [OF e, of p i] have nb: "\<not> (evict_done_cmd s \<and> evict_done_w s)"
    by (auto split: if_splits)
  with evict_step [OF e, of p i] have
    d: "evict_done_cmd (step p s i) = (evict_done_cmd s \<or> cmd_ready i)"
       "evict_done_w (step p s i) = (evict_done_w s \<or> w_ready i)"
    by simp_all
  have f: "cmd_fire u = (\<not> evict_done_cmd s \<and> cmd_ready i)"
    "w_fire u = (\<not> evict_done_w s \<and> w_ready i)"
    using e u by (simp_all add: cmd_fire_def w_fire_def cmd_valid_def w_valid_def)
  from Cons.IH [OF r] d f show ?case by auto
qed

text \<open>
  One pass through EVICT, entered with both completion flags clear. Each of the Command
  and WriteBeat channels completes at most one handshake, and exactly one when the pass is
  left; the command carries the write flag, no last flag and the address formed from the
  registered line and the tag that the read port delivers, the write beat carries the
  data that the DataStore read port delivers, with every byte lane enabled; each valid is
  asserted exactly until its own handshake has happened, in either order; the step to
  REFILL is taken exactly on the tick where both flags are set, and both flags are clear
  after it.
\<close>

lemma evict_pass_handshakes:
  assumes "fsm s = EVICT" and "\<not> evict_done_cmd s" and "\<not> evict_done_w s"
  shows "length (filter cmd_fire (evict_pass p s is)) \<le> 1
     \<and> length (filter w_fire (evict_pass p s is)) \<le> 1
     \<and> (fsm (after_pass p s is) \<noteq> EVICT \<longrightarrow>
          fsm (after_pass p s is) = REFILL
          \<and> length (filter cmd_fire (evict_pass p s is)) = 1
          \<and> length (filter w_fire (evict_pass p s is)) = 1
          \<and> \<not> evict_done_cmd (after_pass p s is) \<and> \<not> evict_done_w (after_pass p s is))
     \<and> (\<forall>t \<in> set (evict_pass p s is).
          cmd_we (fst t) \<and> \<not> cmd_last (fst t)
          \<and> cmd_addr p (fst t) =
               Cat p (intr_adr_r_line p s) (tag (tag_rp_data s)) mod 2 ^ port_adr_bits p
          \<and> w_data (fst t) = dat_rp_data s
          \<and> w_we p (fst t) = 2 ^ (port_bits p div 8) - 1
          \<and> (fsm (step p (fst t) (snd t)) = REFILL)
              = (evict_done_cmd (fst t) \<and> evict_done_w (fst t)))
     \<and> (\<forall>pre t post. evict_pass p s is = pre @ t # post \<longrightarrow>
          cmd_valid (fst t) = (filter cmd_fire pre = [])
          \<and> w_valid (fst t) = (filter w_fire pre = []))"
proof (intro conjI allI impI ballI)
  show "length (filter cmd_fire (evict_pass p s is)) \<le> 1"
    using cmd_count [OF assms(1), of p "is"] assms(2) by simp
  show "length (filter w_fire (evict_pass p s is)) \<le> 1"
    using w_count [OF assms(1), of p "is"] assms(3) by simp
next
  assume a: "fsm (after_pass p s is) \<noteq> EVICT"
  from cmd_count [OF assms(1), of p "is"] a assms(2)
  show "fsm (after_pass p s is) = REFILL"
    and "length (filter cmd_fire (evict_pass p s is)) = 1"
    and "\<not> evict_done_cmd (after_pass p s is)" and "\<not> evict_done_w (after_pass p s is)"
    by simp_all
  from w_count [OF assms(1), of p "is"] a assms(3)
  show "length (filter w_fire (evict_pass p s is)) = 1" by simp
next
  fix t assume "t \<in> set (evict_pass p s is)"
  note f = evict_pass_frame [OF this]
  from f show "cmd_we (fst t)" and "\<not> cmd_last (fst t)"
    by (simp_all add: cmd_we_def cmd_last_def)
  from f show "cmd_addr p (fst t) =
      Cat p (intr_adr_r_line p s) (tag (tag_rp_data s)) mod 2 ^ port_adr_bits p"
    by (simp add: cmd_addr_def intr_adr_r_line_def)
  from f show "w_data (fst t) = dat_rp_data s" by (simp add: w_data_def)
  from f show "w_we p (fst t) = 2 ^ (port_bits p div 8) - 1" by (simp add: w_we_def)
  from f show "(fsm (step p (fst t) (snd t)) = REFILL)
      = (evict_done_cmd (fst t) \<and> evict_done_w (fst t))"
    by (simp add: next_fsm_def)
next
  fix pre t post assume e: "evict_pass p s is = pre @ t # post"
  then have "t \<in> set (evict_pass p s is)" by simp
  from evict_pass_frame [OF this] have f: "fsm (fst t) = EVICT" by simp
  from evict_pass_flags [OF e] assms(2,3) f
  show "cmd_valid (fst t) = (filter cmd_fire pre = [])"
    and "w_valid (fst t) = (filter w_fire pre = [])"
    by (simp_all add: cmd_valid_def w_valid_def)
qed

lemma evict_entry_pass:
  "evict_pass test_elab evict_entry evict_inputs
     = [(evict_entry, idle\<lparr>w_ready := True\<rparr>),
        (evict_entry\<lparr>evict_done_w := True\<rparr>, idle\<lparr>cmd_ready := True\<rparr>),
        (evict_entry\<lparr>evict_done_w := True, evict_done_cmd := True\<rparr>, idle)]"
  by (simp add: evict_inputs_def evict_entry_def eval_defs)

lemma evict_entry_after:
  "after_pass test_elab evict_entry evict_inputs
     = evict_entry\<lparr>fsm := REFILL\<rparr>"
  by (simp add: evict_inputs_def evict_entry_def eval_defs)

text \<open>
  A pass in which the write beat is accepted first and the command one tick later.
\<close>

lemma evict_pass_example:
  "fsm evict_entry = EVICT \<and> \<not> evict_done_cmd evict_entry \<and> \<not> evict_done_w evict_entry
   \<and> fsm (after_pass test_elab evict_entry evict_inputs) = REFILL
   \<and> length (filter cmd_fire (evict_pass test_elab evict_entry evict_inputs)) = 1
   \<and> length (filter w_fire (evict_pass test_elab evict_entry evict_inputs)) = 1
   \<and> cmd_addr test_elab (evict_entry\<lparr>evict_done_w := True\<rparr>) = 10
   \<and> w_data (evict_entry\<lparr>evict_done_w := True\<rparr>) = 9"
proof -
  have h: "fsm evict_entry = EVICT" "\<not> evict_done_cmd evict_entry" "\<not> evict_done_w evict_entry"
    by (simp_all add: evict_entry_def init_state_def)
  have a: "fsm (after_pass test_elab evict_entry evict_inputs) \<noteq> EVICT"
    by (simp only: evict_entry_after) (simp add: evict_entry_def)
  have m: "(evict_entry\<lparr>evict_done_w := True\<rparr>, idle\<lparr>cmd_ready := True\<rparr>) \<in> set (evict_pass test_elab evict_entry evict_inputs)"
    by (simp only: evict_entry_pass) simp
  have c: "Cat test_elab (intr_adr_r_line test_elab evict_entry) (tag (tag_rp_data evict_entry))
      mod 2 ^ port_adr_bits test_elab = 10" "dat_rp_data evict_entry = 9"
    by (simp_all add: evict_entry_def Cat_def eval_defs)
  from evict_pass_handshakes [OF h, of test_elab
      evict_inputs] a m c h
  show ?thesis by auto
qed

subsection \<open>Writing every lane\<close>

lemma odd_mask_div: "k < n \<Longrightarrow> odd ((2 ^ n - 1) div 2 ^ k :: nat)"
proof -
  assume "k < n"
  then have "bit (mask n :: nat) k" by (simp add: bit_mask_iff)
  then show ?thesis by (simp add: bit_iff_odd mask_eq_exp_minus_1)
qed

lemma write_lanes_prefix:
  "k \<le> n \<Longrightarrow> write_lanes g k (2 ^ n - 1) d old = d mod 2 ^ (k * g)"
proof (induction k)
  case 0
  show ?case by simp
next
  case (Suc k)
  then have o: "odd ((2 ^ n - 1) div 2 ^ k :: nat)" by (intro odd_mask_div) simp
  have "d mod 2 ^ (k * g) + (d div 2 ^ (k * g) mod 2 ^ g) * 2 ^ (k * g) = d mod (2 ^ (k * g) * 2 ^ g)"
    by (simp add: mod_mult2_eq)
  also have "\<dots> = d mod 2 ^ (Suc k * g)" by (simp add: power_add mult.commute)
  finally show ?case using Suc o by (simp add: word_select_def)
qed

lemma write_lanes_all:
  "d < 2 ^ (n * g) \<Longrightarrow> write_lanes g n (2 ^ n - 1) d old = d"
  using write_lanes_prefix [of n n g d old] by simp

subsection \<open>Backend addresses of different lines differ\<close>

lemma Cat_line:
  "line_bits p \<le> port_adr_bits p \<Longrightarrow>
     (Cat p l t mod 2 ^ port_adr_bits p) mod 2 ^ line_bits p = l mod 2 ^ line_bits p"
proof -
  assume "line_bits p \<le> port_adr_bits p"
  then have "(2::nat) ^ line_bits p dvd 2 ^ port_adr_bits p" by (rule le_imp_power_dvd)
  then have "(Cat p l t mod 2 ^ port_adr_bits p) mod 2 ^ line_bits p = Cat p l t mod 2 ^ line_bits p"
    by (rule mod_mod_cancel)
  then show ?thesis by (simp add: Cat_def)
qed

lemma adr_line_less: "adr_line p a < 2 ^ line_bits p"
  by (simp add: adr_line_def)

lemma other_line_other_addr:
  assumes "line_bits p \<le> port_adr_bits p" and "l < 2 ^ line_bits p" and "l \<noteq> adr_line p a"
  shows "Cat p l t mod 2 ^ port_adr_bits p \<noteq> Cat p (adr_line p a) t' mod 2 ^ port_adr_bits p"
proof
  assume "Cat p l t mod 2 ^ port_adr_bits p = Cat p (adr_line p a) t' mod 2 ^ port_adr_bits p"
  then have "(Cat p l t mod 2 ^ port_adr_bits p) mod 2 ^ line_bits p
      = (Cat p (adr_line p a) t' mod 2 ^ port_adr_bits p) mod 2 ^ line_bits p" by simp
  then have "l mod 2 ^ line_bits p = adr_line p a mod 2 ^ line_bits p"
    by (simp only: Cat_line [OF assms(1)])
  with assms(2) adr_line_less [of p a] have "l = adr_line p a" by simp
  with assms(3) show False by simp
qed

subsection \<open>The memories after one tick\<close>

lemma step_dat_mem:
  "dat_mem (step p s i) =
     (if dat_wp_en p s i = 0 \<or> \<not> wp_addr p s i < depth p then dat_mem s
      else (dat_mem s)(wp_addr p s i :=
             write_lanes (gran_bits p) (wp_lanes p) (dat_wp_en p s i) (dat_wp_data p s i)
               (dat_mem s (wp_addr p s i))))"
  by (simp add: step_def)

lemma mem_frame:
  assumes "\<not> tag_wp_en p s i \<or> l \<noteq> wp_addr p s i"
    and "tag_wp_en p s i \<or> dat_wp_en p s i = 0"
  shows "tag_mem (step p s i) l = tag_mem s l" and "dat_mem (step p s i) l = dat_mem s l"
  using assms by (auto simp: step_dat_mem)

lemma no_write_no_lanes: "tag_wp_en p s i \<or> dat_wp_en p s i = 0"
  by (cases "fsm s") (auto simp: tag_wp_en_def dat_wp_en_def)

lemma mem_frame_line:
  assumes "\<not> tag_wp_en p s i \<or> l \<noteq> wp_addr p s i"
  shows "tag_mem (step p s i) l = tag_mem s l" and "dat_mem (step p s i) l = dat_mem s l"
    and "line_addr p (step p s i) l = line_addr p s l"
proof -
  from mem_frame [OF assms no_write_no_lanes]
  show "tag_mem (step p s i) l = tag_mem s l" and "dat_mem (step p s i) l = dat_mem s l" .
  then show "line_addr p (step p s i) l = line_addr p s l" by (simp add: line_addr_def)
qed

subsection \<open>Clean lines agree with the backing store\<close>

lemma coherent_init: "dram_reset_ok p d \<Longrightarrow> coherent p init_state d"
  by (simp add: coherent_def dram_reset_ok_def line_addr_def init_state_def)

lemma coherent_CHECK:
  assumes "fsm s = CHECK" and "coherent p s d"
  shows "coherent p (step p s i) (dram_step p s d)"
  unfolding coherent_def
proof (intro allI impI)
  fix l assume l: "l < depth p" and c: "\<not> dirty (tag_mem (step p s i) l)"
  have nw: "\<not> tag_wp_en p s i \<or> l \<noteq> wp_addr p s i"
  proof (rule ccontr)
    assume "\<not> (\<not> tag_wp_en p s i \<or> l \<noteq> wp_addr p s i)"
    then have w: "tag_wp_en p s i" and e: "wp_addr p s i = l" by auto
    from w l assms(1) have "dirty (tag_mem (step p s i) l)"
      by (simp add: e tag_wp_data_def)
    with c show False by simp
  qed
  note f = mem_frame_line [OF nw]
  from assms(1) have "\<not> under_replacement p s l" by (simp add: under_replacement_def)
  with assms(2) l c f have "dat_mem s l = d (line_addr p s l)" by (simp add: coherent_def)
  with f assms(1) show "dat_mem (step p s i) l = dram_step p s d (line_addr p (step p s i) l)"
    by (simp add: dram_step_def)
qed

lemma coherent_EVICT:
  assumes "fsm s = EVICT" and "coherent p s d" and "\<not> refill_done_r s"
    and "line_bits p \<le> port_adr_bits p" and "depth p = 0 \<or> depth p = 2 ^ line_bits p"
  shows "coherent p (step p s i) (dram_step p s d)"
  unfolding coherent_def
proof (intro allI impI)
  fix l assume l: "l < depth p" and c: "\<not> dirty (tag_mem (step p s i) l)"
    and u: "\<not> under_replacement p (step p s i) l"
  from l assms(5) have l2: "l < 2 ^ line_bits p" by auto
  from assms(1) have nw: "\<not> tag_wp_en p s i \<or> l \<noteq> wp_addr p s i" by (simp add: tag_wp_en_def)
  note f = mem_frame_line [OF nw]
  from assms(1,3) u have ne: "l \<noteq> intr_adr_r_line p s"
    by (auto simp: under_replacement_def next_fsm_def intr_adr_r_line_def split: if_splits)
  then have "\<not> under_replacement p s l" by (simp add: under_replacement_def)
  with assms(2) l c f have e: "dat_mem s l = d (line_addr p s l)" by (simp add: coherent_def)
  from ne have "line_addr p s l \<noteq> cmd_addr p s"
    using other_line_other_addr [OF assms(4) l2, of "intr_bus_r_adr s"] assms(1)
    by (simp add: line_addr_def cmd_addr_def intr_adr_r_line_def)
  then have "dram_step p s d (line_addr p s l) = d (line_addr p s l)"
    by (simp add: dram_step_def)
  with e f show "dat_mem (step p s i) l = dram_step p s d (line_addr p (step p s i) l)"
    by simp
qed

lemma refill_commit:
  assumes "fsm s = REFILL" and "r_valid i" and "r_ready s"
    and "0 < wp_lanes p" and "wp_lanes p * gran_bits p = port_bits p"
    and "intr_adr_r_line p s < depth p"
  shows "tag_mem (step p s i) (intr_adr_r_line p s) = \<lparr>tag = intr_adr_r_tag p s, dirty = False\<rparr>"
    and "dat_mem (step p s i) (intr_adr_r_line p s) = r_data i mod 2 ^ port_bits p"
proof -
  from assms(1-3,6) show "tag_mem (step p s i) (intr_adr_r_line p s)
      = \<lparr>tag = intr_adr_r_tag p s, dirty = False\<rparr>"
    by (simp add: tag_wp_en_def wp_addr_def tag_wp_data_def)
  have "(1::nat) < 2 ^ wp_lanes p" by (rule one_less_power) (use assms(4) in simp_all)
  then have en: "dat_wp_en p s i \<noteq> 0" using assms(1-3) by (simp add: dat_wp_en_def)
  have "r_data i mod 2 ^ port_bits p < 2 ^ (wp_lanes p * gran_bits p)"
    by (simp add: assms(5))
  from write_lanes_all [OF this] assms(1-3,6) en
  show "dat_mem (step p s i) (intr_adr_r_line p s) = r_data i mod 2 ^ port_bits p"
    by (simp add: step_dat_mem dat_wp_en_def dat_wp_data_def wp_addr_def)
qed

lemma coherent_REFILL:
  assumes "fsm s = REFILL" and "coherent p s d" and "read_ok p s d i" and "elab_ok p"
  shows "coherent p (step p s i) (dram_step p s d)"
  unfolding coherent_def
proof (intro allI impI)
  fix l assume l: "l < depth p" and c: "\<not> dirty (tag_mem (step p s i) l)"
    and u: "\<not> under_replacement p (step p s i) l"
  have ds: "dram_step p s d = d" using assms(1) by (simp add: dram_step_def)
  show "dat_mem (step p s i) l = dram_step p s d (line_addr p (step p s i) l)"
  proof (cases "r_valid i \<and> r_ready s \<and> l = intr_adr_r_line p s")
    case True
    from assms(4) have e: "0 < wp_lanes p" "wp_lanes p * gran_bits p = port_bits p"
      by (simp_all add: elab_ok_def)
    from True have rv: "r_valid i" and rr: "r_ready s" by simp_all
    from True l have lt: "intr_adr_r_line p s < depth p" by simp
    note cm = refill_commit [OF assms(1) rv rr e lt]
    from assms(3,1) rv rr have "r_data i mod 2 ^ port_bits p = d (cmd_addr p s)"
      by (simp add: read_ok_def)
    moreover have "line_addr p (step p s i) (intr_adr_r_line p s) = cmd_addr p s"
      using assms(1) by (simp only: line_addr_def cm) (simp add: cmd_addr_def)
    ultimately show ?thesis using True cm ds by simp
  next
    case False
    have nw: "\<not> tag_wp_en p s i \<or> l \<noteq> wp_addr p s i"
      using False assms(1) by (auto simp: tag_wp_en_def wp_addr_def)
    note f = mem_frame_line [OF nw]
    have "\<not> under_replacement p s l"
    proof
      assume ur: "under_replacement p s l"
      with assms(1) have le: "l = intr_adr_r_line p s" and nd: "\<not> refill_done_r s"
        by (simp_all add: under_replacement_def)
      with False have nf: "\<not> (r_valid i \<and> r_ready s)" by simp
      from nd assms(1) have "fsm (step p s i) = REFILL" by (simp add: next_fsm_def)
      moreover from nd nf assms(1) have "\<not> refill_done_r (step p s i)" by simp
      moreover from assms(1) have "intr_adr_r_line p (step p s i) = intr_adr_r_line p s"
        by (simp add: intr_adr_r_line_def)
      ultimately have "under_replacement p (step p s i) l"
        using le by (simp add: under_replacement_def)
      with u show False by simp
    qed
    with assms(2) l c f have "dat_mem s l = d (line_addr p s l)" by (simp add: coherent_def)
    with f ds show ?thesis by simp
  qed
qed

lemma coherent_step:
  assumes "reachable p s" and "elab_ok p" and "coherent p s d" and "read_ok p s d i"
  shows "coherent p (step p s i) (dram_step p s d)"
proof (cases "fsm s")
  case CHECK
  then show ?thesis using assms(3) by (rule coherent_CHECK)
next
  case EVICT
  with done_flags_outside [OF assms(1)] have "\<not> refill_done_r s" by simp
  moreover from assms(2) have "line_bits p \<le> port_adr_bits p"
    and "depth p = 0 \<or> depth p = 2 ^ line_bits p" by (simp_all add: elab_ok_def)
  ultimately show ?thesis using EVICT assms(3) by (intro coherent_EVICT)
next
  case REFILL
  then show ?thesis using assms(3,4,2) by (rule coherent_REFILL)
qed

lemma coherent_run:
  "reachable p s \<Longrightarrow> elab_ok p \<Longrightarrow> coherent p s d \<Longrightarrow> env_ok p (s, d) is \<Longrightarrow>
     coherent p (fst (sys_run p (s, d) is)) (snd (sys_run p (s, d) is))"
proof (induction "is" arbitrary: s d)
  case Nil
  then show ?case by simp
next
  case (Cons i "is")
  from Cons.prems have r: "read_ok p s d i"
    and e: "env_ok p (step p s i, dram_step p s d) is" by simp_all
  from Cons.IH [OF reach_step [OF Cons.prems(1)] Cons.prems(2)
      coherent_step [OF Cons.prems(1,2,3) r] e]
  show ?case by simp
qed

subsection \<open>Elaborations of accepted configurations\<close>

lemma granularity_dvd:
  assumes "bus_accepts dw g"
  shows "0 < granularity_of dw g \<and> granularity_of dw g dvd dw"
proof (cases g)
  case None
  with assms show ?thesis by (auto simp: bus_accepts_def granularity_of_def)
next
  case (Some x)
  with assms have "dw \<in> {8, 16, 32, 64}" and "x \<in> {8, 16, 32, 64}" and "x \<le> dw"
    by (simp_all add: bus_accepts_def)
  then have "0 < x \<and> x dvd dw" by (elim insertE) simp_all
  with Some show ?thesis by (simp add: granularity_of_def)
qed

lemma elaborate_elab_ok:
  assumes "construct aw pw sz dw g = Inr c" and "elaborate c = Inr p"
  shows "elab_ok p"
proof -
  from construct_InrD [OF assms(1)] obtain ob where
    v: "claimed_valid aw pw sz dw" "bus_accepts dw g" and
    c: "c = \<lparr>cache_size = sz,
             dram_port = \<lparr>port_addr_width = aw, port_data_width = pw\<rparr>,
             intr_bus = \<lparr>bus_addr_width = aw + int ob, bus_data_width = dw,
                         bus_granularity = granularity_of dw g\<rparr>\<rparr>"
    by (elim conjE exE)
  from intr_adr_layout_facts [OF assms(1)] obtain ob' lb where
    np: "0 < nb_lines c \<longrightarrow> nb_lines c = 2 ^ lb" and
    a: "bus_addr_width (intr_bus c) = aw + int ob'" and
    lay: "if aw < int lb then intr_adr_layout c = Inl TypeError
        else (\<exists>l. intr_adr_layout c = Inr l \<and> offset_width l = int ob' \<and> line_width l = int lb \<and>
                0 \<le> tag_width l \<and>
                offset_width l + line_width l + tag_width l = bus_addr_width (intr_bus c))"
    by (elim conjE exE)
  have na: "\<not> aw < int lb"
  proof
    assume "aw < int lb"
    with lay have "intr_adr_layout c = Inl TypeError" by simp
    with assms(2) show False by (simp add: elaborate_def)
  qed
  with lay obtain l where
    l: "intr_adr_layout c = Inr l" "line_width l = int lb"
    by (auto simp only: if_False)
  from assms(2) l(1) have
    p: "line_bits p = nat (line_width l)"
      "port_adr_bits p = nat (port_addr_width (dram_port c))"
      "gran_bits p = nat (bus_granularity (intr_bus c))"
      "port_bits p = nat (port_data_width (dram_port c))"
      "depth p = nat (nb_lines c)"
    by (auto simp: elaborate_def)
  from na l(2) have lb: "line_bits p \<le> port_adr_bits p" using p c by simp
  have dp: "depth p = 0 \<or> depth p = 2 ^ line_bits p"
  proof (cases "0 < nb_lines c")
    case True
    with np have "nb_lines c = 2 ^ lb" by simp
    then have "nat (nb_lines c) = 2 ^ lb" by (simp add: nat_power_eq)
    with p l(2) show ?thesis by simp
  next
    case False
    with p show ?thesis by simp
  qed
  from v(1) have pw: "power_of_two pw" "power_of_two dw" "pw mod dw = 0"
    by (simp_all add: claimed_valid_def)
  then have "0 < pw" by (auto simp: power_of_two_def)
  from pw(3) have "dw dvd pw" by (simp add: dvd_eq_mod_eq_0)
  with granularity_dvd [OF v(2)] have gd: "granularity_of dw g dvd pw"
    and gp: "0 < granularity_of dw g" by (auto elim: dvd_trans)
  from gd gp \<open>0 < pw\<close> have nd: "nat (granularity_of dw g) dvd nat pw"
    by (simp add: nat_dvd_iff)
  from gd gp \<open>0 < pw\<close> have "granularity_of dw g \<le> pw" by (simp add: zdvd_imp_le)
  with gp have "0 < nat pw div nat (granularity_of dw g)"
    by (simp add: div_greater_zero_iff)
  moreover from nd have "nat pw div nat (granularity_of dw g) * nat (granularity_of dw g) = nat pw"
    by simp
  ultimately show ?thesis using lb dp p c by (simp add: elab_ok_def wp_lanes_def)
qed

lemma elaborate_depth:
  assumes "construct aw pw sz dw g = Inr c" and "elaborate c = Inr p" and "0 < nb_lines c"
  shows "depth p = 2 ^ line_bits p"
proof -
  from assms(2) have "depth p = nat (nb_lines c)"
    by (auto simp: elaborate_def split: sum.splits)
  with assms(3) have "0 < depth p" by simp
  with elaborate_elab_ok [OF assms(1,2)] show ?thesis by (simp add: elab_ok_def)
qed

lemma elaborate_test_cache: "elaborate test_cache = Inr test_elab"
proof -
  have "log2_int 2 = Inr 1" using log2_int_pow2 [of 1] by simp
  then show ?thesis
    by (simp add: elaborate_def intr_adr_layout_def ratio_def nb_lines_def test_cache_def
        test_elab_def)
qed

subsection \<open>Runs with a backing store\<close>

lemma fst_sys_run: "fst (sys_run p (s, d) is) = run p s is"
  by (induction "is" arbitrary: s d) simp_all

lemma write_hit_marks_dirty:
  "ack p s i \<Longrightarrow> we i \<Longrightarrow> adr_line p (adr i) < depth p \<Longrightarrow>
     dirty (tag_mem (step p s i) (adr_line p (adr i)))"
  by (simp add: ack_def tag_wp_en_def wp_addr_def tag_wp_data_def)

text \<open>
  Claim C2, amended. Take a configuration that construction and elaboration accept, a
  backing store that holds zero at the tag-0 addresses at reset and returns its stored
  word on every refill read, and any inputs otherwise. In every state reached, every line
  of the cache (every index below the depth of the memories) whose dirty bit is clear
  holds the word the backing store holds at the line's backend address, for every line
  that is not under replacement (in CHECK and in REFILL after the read beat: every line;
  in EVICT and in REFILL before the read beat: every line other than the registered one).
  Nothing of the converse holds: when the cache has at least one line, an acknowledged
  write addresses a line of the cache and sets its dirty bit, whatever data it stores.
\<close>

theorem clean_lines_match_backing_store:
  assumes "construct aw pw sz dw g = Inr c" and "elaborate c = Inr p"
    and "dram_reset_ok p d0" and "env_ok p (init_state, d0) is"
    and "sys_run p (init_state, d0) is = (s, d)"
  shows "(\<forall>l < depth p. \<not> under_replacement p s l \<longrightarrow> \<not> dirty (tag_mem s l) \<longrightarrow>
            dat_mem s l = d (line_addr p s l))
       \<and> (\<forall>i. ack p s i \<and> we i \<and> 0 < depth p \<longrightarrow>
            adr_line p (adr i) < depth p
            \<and> dirty (tag_mem (step p s i) (adr_line p (adr i))))"
proof (intro conjI allI impI)
  have "coherent p (fst (sys_run p (init_state, d0) is)) (snd (sys_run p (init_state, d0) is))"
    using reach_init elaborate_elab_ok [OF assms(1,2)] coherent_init [OF assms(3)] assms(4)
    by (rule coherent_run)
  with assms(5) have "coherent p s d" by simp
  then show "\<And>l. l < depth p \<Longrightarrow> \<not> under_replacement p s l \<Longrightarrow> \<not> dirty (tag_mem s l) \<Longrightarrow>
      dat_mem s l = d (line_addr p s l)"
    by (simp add: coherent_def)
next
  fix i assume a: "ack p s i \<and> we i \<and> 0 < depth p"
  with elaborate_elab_ok [OF assms(1,2)] have "depth p = 2 ^ line_bits p"
    by (simp add: elab_ok_def)
  then show l: "adr_line p (adr i) < depth p" by (simp add: adr_line_def)
  from a have "ack p s i" and "we i" by simp_all
  then show "dirty (tag_mem (step p s i) (adr_line p (adr i)))"
    using l by (rule write_hit_marks_dirty)
qed

lemma Repl_pos:
  "0 < n \<Longrightarrow> Repl w v n = Repl w v (n - 1) + (v mod 2 ^ w) * 2 ^ ((n - 1) * w)"
  by (cases n) simp_all

lemma dram_reset_zero: "dram_reset_ok test_elab zero_dram"
  by (simp add: dram_reset_ok_def zero_dram_def)

lemma dram_reset_test: "dram_reset_ok test_elab test_dram"
proof -
  have "l < 2 \<Longrightarrow> test_dram (Cat test_elab l 0 mod 2 ^ port_adr_bits test_elab) = 0" for l
  proof -
    assume "l < 2"
    then have "l = 0 \<or> l = 1" by auto
    then show ?thesis
      by (auto simp: test_dram_def zero_dram_def Cat_def test_elab_def)
  qed
  then show ?thesis by (simp add: dram_reset_ok_def test_elab_def)
qed

lemma write_hit_state_eq:
  "write_hit_state =
     \<lparr>fsm = CHECK, intr_bus_r_cyc = True, intr_bus_r_stb = True, intr_bus_r_adr = 0,
      evict_done_cmd = False, evict_done_w = False,
      refill_done_cmd = False, refill_done_r = False,
      tag_mem = (\<lambda>_. \<lparr>tag = 0, dirty = False\<rparr>)(0 := \<lparr>tag = 0, dirty = True\<rparr>),
      dat_mem = (\<lambda>_. 0)(0 := 0),
      tag_rp_data = \<lparr>tag = 0, dirty = False\<rparr>, dat_rp_data = 0\<rparr>"
  unfolding write_hit_state_def write_hit_inputs_def
  by (simp add: eval_defs write_lanes_pos Repl_pos dram_step_def)

lemma write_hit_dram_eq: "write_hit_dram = zero_dram"
  unfolding write_hit_dram_def write_hit_inputs_def
  by (simp add: eval_defs dram_step_def)

text \<open>
  Claim C2 as stated fails: on the reset cache over a backing store of zeros, a write of
  zero to address 0 is acknowledged on its second tick and leaves line 0 dirty with the
  content the backing store holds.
\<close>

theorem write_hit_dirty_counterexample:
  "dram_reset_ok test_elab zero_dram
   \<and> env_ok test_elab (init_state, zero_dram) write_hit_inputs
   \<and> dirty (tag_mem write_hit_state 0)
   \<and> dat_mem write_hit_state 0 = write_hit_dram (line_addr test_elab write_hit_state 0)
   \<and> \<not> claimed_dirty_iff test_elab write_hit_state write_hit_dram 0"
proof -
  have e: "env_ok test_elab (init_state, zero_dram) write_hit_inputs"
    by (simp add: write_hit_inputs_def read_ok_def eval_defs)
  have "dirty (tag_mem write_hit_state 0)"
    and "dat_mem write_hit_state 0 = write_hit_dram (line_addr test_elab write_hit_state 0)"
    unfolding write_hit_state_eq write_hit_dram_eq by (simp_all add: zero_dram_def)
  with e dram_reset_zero show ?thesis by (simp add: claimed_dirty_iff_def)
qed

lemma line1_refilled_eq:
  "line1_refilled =
     \<lparr>fsm = REFILL, intr_bus_r_cyc = False, intr_bus_r_stb = False, intr_bus_r_adr = 6,
      evict_done_cmd = False, evict_done_w = False,
      refill_done_cmd = True, refill_done_r = True,
      tag_mem = (\<lambda>_. \<lparr>tag = 0, dirty = False\<rparr>)(1 := \<lparr>tag = 1, dirty = False\<rparr>),
      dat_mem = (\<lambda>_. 0)(1 := 7),
      tag_rp_data = \<lparr>tag = 0, dirty = False\<rparr>, dat_rp_data = 0\<rparr>"
  unfolding line1_refilled_def line1_refill_def by (simp add: eval_defs write_lanes_pos)

lemma refill_run:
  "sys_run test_elab (init_state, test_dram) line1_refill = (line1_refilled, test_dram)"
proof -
  have "fst (sys_run test_elab (init_state, test_dram) line1_refill) = line1_refilled"
    by (simp add: fst_sys_run line1_refilled_def)
  moreover have "snd (sys_run test_elab (init_state, test_dram) line1_refill) = test_dram"
    by (simp add: line1_refill_def eval_defs dram_step_def)
  ultimately show ?thesis by (simp add: prod_eq_iff)
qed

lemma refill_env: "env_ok test_elab (init_state, test_dram) line1_refill"
  by (simp add: line1_refill_def read_ok_def eval_defs dram_step_def cmd_addr_def Cat_def
      test_dram_def zero_dram_def)

text \<open>
  The test configuration with the word 7 at backend address 3: after the read beat of the
  refill for address 6, line 1 is clean and holds 7.
\<close>

theorem clean_lines_match_backing_store_witness:
  "construct 23 32 8 16 (Some 8) = Inr test_cache \<and> elaborate test_cache = Inr test_elab
   \<and> dram_reset_ok test_elab test_dram
   \<and> env_ok test_elab (init_state, test_dram) line1_refill
   \<and> sys_run test_elab (init_state, test_dram) line1_refill = (line1_refilled, test_dram)
   \<and> (1::nat) < depth test_elab
   \<and> \<not> under_replacement test_elab line1_refilled 1
   \<and> \<not> dirty (tag_mem line1_refilled 1)
   \<and> dat_mem line1_refilled 1 = test_dram (line_addr test_elab line1_refilled 1)
   \<and> dat_mem line1_refilled 1 = 7
   \<and> line_addr test_elab line1_refilled 1 = 3"
proof -
  have u: "\<not> under_replacement test_elab line1_refilled 1"
    and c: "\<not> dirty (tag_mem line1_refilled 1)"
    and v: "dat_mem line1_refilled 1 = 7"
    and a: "line_addr test_elab line1_refilled 1 = 3"
    unfolding line1_refilled_eq
    by (simp_all add: under_replacement_def line_addr_def Cat_def test_elab_def)
  have l: "(1::nat) < depth test_elab" by (simp add: test_elab_def)
  from clean_lines_match_backing_store [OF construct_test_cache elaborate_test_cache
      dram_reset_test refill_env refill_run] l u c
  have "dat_mem line1_refilled 1 = test_dram (line_addr test_elab line1_refilled 1)" by blast
  with v a u c l construct_test_cache elaborate_test_cache dram_reset_test refill_env refill_run
  show ?thesis by (intro conjI)
qed

text \<open>
  The line under replacement is left out for a reason: when the requester replaces a
  pending request by one for another line (which the bus protocol forbids), the eviction
  writes the data read for the first line to an address of the second, whose clean
  entry then differs from the backing store until its refill.
\<close>

lemma replacement_exemption_needed:
  "env_ok test_elab (init_state, zero_dram) switch_inputs
   \<and> fsm (fst (sys_run test_elab (init_state, zero_dram) switch_inputs)) = REFILL
   \<and> intr_adr_r_line test_elab (fst (sys_run test_elab (init_state, zero_dram) switch_inputs)) = 0
   \<and> \<not> dirty (tag_mem (fst (sys_run test_elab (init_state, zero_dram) switch_inputs)) 0)
   \<and> dat_mem (fst (sys_run test_elab (init_state, zero_dram) switch_inputs)) 0 = 0
   \<and> snd (sys_run test_elab (init_state, zero_dram) switch_inputs)
        (line_addr test_elab (fst (sys_run test_elab (init_state, zero_dram) switch_inputs)) 0) = 9"
  unfolding switch_inputs_def
  by (simp add: eval_defs write_lanes_pos dram_step_def read_ok_def cmd_addr_def Cat_def
      w_data_def line_addr_def zero_dram_def Repl_pos)

subsection \<open>The TagStore entry after a refill\<close>

lemma line1_miss_eq:
  "line1_miss =
     \<lparr>fsm = CHECK, intr_bus_r_cyc = True, intr_bus_r_stb = True, intr_bus_r_adr = 6,
      evict_done_cmd = False, evict_done_w = False,
      refill_done_cmd = False, refill_done_r = False,
      tag_mem = (\<lambda>_. \<lparr>tag = 0, dirty = False\<rparr>), dat_mem = (\<lambda>_. 0),
      tag_rp_data = \<lparr>tag = 0, dirty = False\<rparr>, dat_rp_data = 0\<rparr>"
  unfolding line1_miss_def by (simp add: eval_defs)

lemma line1_refilling_eq:
  "line1_refilling =
     \<lparr>fsm = REFILL, intr_bus_r_cyc = False, intr_bus_r_stb = False, intr_bus_r_adr = 6,
      evict_done_cmd = False, evict_done_w = False,
      refill_done_cmd = True, refill_done_r = False,
      tag_mem = (\<lambda>_. \<lparr>tag = 0, dirty = False\<rparr>), dat_mem = (\<lambda>_. 0),
      tag_rp_data = \<lparr>tag = 0, dirty = False\<rparr>, dat_rp_data = 0\<rparr>"
  unfolding line1_refilling_def by (simp add: eval_defs)

lemma line1_busy:
  shows "line1_refilling \<in> set (busy_states test_elab (step test_elab line1_miss (request 6 CLASSIC))
        [(request 6 CLASSIC)\<lparr>cmd_ready := True\<rparr>,
         (request 6 CLASSIC)\<lparr>r_valid := True, r_data := 7\<rparr>, request 6 CLASSIC])"
    and "line1_refilled \<in> set (busy_states test_elab (step test_elab line1_miss (request 6 CLASSIC))
        [(request 6 CLASSIC)\<lparr>cmd_ready := True\<rparr>,
         (request 6 CLASSIC)\<lparr>r_valid := True, r_data := 7\<rparr>, request 6 CLASSIC])"
proof -
  have f: "fsm (step test_elab line1_miss (request 6 CLASSIC)) \<noteq> CHECK"
    unfolding line1_miss_eq by (simp add: eval_defs)
  have a: "step test_elab (step test_elab line1_miss (request 6 CLASSIC))
      ((request 6 CLASSIC)\<lparr>cmd_ready := True\<rparr>) = line1_refilling"
    by (simp add: line1_miss_def line1_refilling_def)
  have b: "step test_elab line1_refilling ((request 6 CLASSIC)\<lparr>r_valid := True, r_data := 7\<rparr>)
      = line1_refilled"
    by (simp add: line1_refilling_def line1_refilled_def line1_refill_def)
  have g: "fsm line1_refilling \<noteq> CHECK" by (simp add: line1_refilling_eq)
  have h: "fsm line1_refilled \<noteq> CHECK" by (simp add: line1_refilled_eq)
  from f g show "line1_refilling \<in> set (busy_states test_elab
      (step test_elab line1_miss (request 6 CLASSIC))
        [(request 6 CLASSIC)\<lparr>cmd_ready := True\<rparr>,
         (request 6 CLASSIC)\<lparr>r_valid := True, r_data := 7\<rparr>, request 6 CLASSIC])"
    by (simp add: a)
  from f g h show "line1_refilled \<in> set (busy_states test_elab
      (step test_elab line1_miss (request 6 CLASSIC))
        [(request 6 CLASSIC)\<lparr>cmd_ready := True\<rparr>,
         (request 6 CLASSIC)\<lparr>r_valid := True, r_data := 7\<rparr>, request 6 CLASSIC])"
    by (simp add: a b)
qed

text \<open>
  Claim C3, amended. For every configuration that construction and elaboration accept and
  that has at least one line: from a miss on, while the controller is busy, the registered
  line and tag are those of the address of the miss; when a tick in REFILL moves to CHECK,
  the TagStore entry at the line of that address holds the tag of that address with the
  dirty bit clear, and the registered line and tag are still the same; that entry is
  written on the tick the ReadBeat is accepted, and the ReadBeat flag is set by that tick
  only.
\<close>

theorem post_refill:
  assumes "construct aw pw sz dw g = Inr c" and "elaborate c = Inr p" and "0 < nb_lines c"
    and "reachable p s0" and "miss p s0 i0"
    and "s \<in> set (busy_states p (step p s0 i0) is)" and "fsm s = REFILL"
  shows "intr_adr_r_line p s = adr_line p (adr i0) \<and> intr_adr_r_tag p s = adr_tag p (adr i0)
       \<and> (fsm (step p s i) = CHECK \<longrightarrow>
            tag_mem (step p s i) (adr_line p (adr i0)) = \<lparr>tag = adr_tag p (adr i0), dirty = False\<rparr>
            \<and> intr_adr_r_line p (step p s i) = adr_line p (adr i0)
            \<and> intr_adr_r_tag p (step p s i) = adr_tag p (adr i0))
       \<and> (r_valid i \<and> r_ready s \<longrightarrow>
            tag_mem (step p s i) (adr_line p (adr i0)) = \<lparr>tag = adr_tag p (adr i0), dirty = False\<rparr>
            \<and> refill_done_r (step p s i))
       \<and> (refill_done_r (step p s i) \<and> \<not> refill_done_r s \<longrightarrow> r_valid i \<and> r_ready s)"
proof -
  note d = elaborate_depth [OF assms(1-3)]
  note t = refill_commit_target [OF assms(4,5) d assms(6,7), of i]
  note r = registered_after_miss [OF assms(5,6)]
  from assms(7) have "intr_bus_r_adr (step p s i) = intr_bus_r_adr s"
    by (simp add: step_def)
  then have k: "intr_adr_r_line p (step p s i) = intr_adr_r_line p s"
    "intr_adr_r_tag p (step p s i) = intr_adr_r_tag p s"
    by (simp_all only: intr_adr_r_line_def intr_adr_r_tag_def)
  from k r have k': "intr_adr_r_line p (step p s i) = adr_line p (adr i0)"
    "intr_adr_r_tag p (step p s i) = adr_tag p (adr i0)"
    by (simp_all only:)
  from t have t1: "fsm (step p s i) = CHECK \<longrightarrow>
      tag_mem (step p s i) (adr_line p (adr i0)) = \<lparr>tag = adr_tag p (adr i0), dirty = False\<rparr>"
    by (rule conjunct1)
  from t have t2: "r_valid i \<and> r_ready s \<longrightarrow>
            tag_mem (step p s i) (adr_line p (adr i0)) = \<lparr>tag = adr_tag p (adr i0), dirty = False\<rparr>
            \<and> refill_done_r (step p s i)"
    by (rule conjunct1 [OF conjunct2])
  from t have t3: "refill_done_r (step p s i) \<and> \<not> refill_done_r s \<longrightarrow> r_valid i \<and> r_ready s"
    by (rule conjunct2 [OF conjunct2])
  from t1 k' have t1': "fsm (step p s i) = CHECK \<longrightarrow>
            tag_mem (step p s i) (adr_line p (adr i0)) = \<lparr>tag = adr_tag p (adr i0), dirty = False\<rparr>
            \<and> intr_adr_r_line p (step p s i) = adr_line p (adr i0)
            \<and> intr_adr_r_tag p (step p s i) = adr_tag p (adr i0)"
    by (intro impI conjI) (erule (1) mp, assumption+)
  from r t1' t2 t3 show ?thesis by (intro conjI)
qed

text \<open>
  The test configuration and a request for address 6 (line 1, tag 1): the tick that
  accepts the read beat writes tag 1, clean, to line 1, which held tag 0, and the tick
  that leaves REFILL leaves it there.
\<close>

theorem post_refill_witness:
  "construct 23 32 8 16 (Some 8) = Inr test_cache \<and> elaborate test_cache = Inr test_elab
   \<and> 0 < nb_lines test_cache
   \<and> reachable test_elab line1_miss \<and> miss test_elab line1_miss (request 6 CLASSIC)
   \<and> adr_line test_elab (adr (request 6 CLASSIC)) = 1
   \<and> adr_tag test_elab (adr (request 6 CLASSIC)) = 1
   \<and> fsm line1_refilling = REFILL
   \<and> r_ready line1_refilling
   \<and> tag_mem line1_refilling 1 = \<lparr>tag = 0, dirty = False\<rparr>
   \<and> tag_mem (step test_elab line1_refilling ((request 6 CLASSIC)\<lparr>r_valid := True, r_data := 7\<rparr>)) 1
       = \<lparr>tag = 1, dirty = False\<rparr>
   \<and> fsm line1_refilled = REFILL
   \<and> fsm (step test_elab line1_refilled (request 6 CLASSIC)) = CHECK
   \<and> tag_mem (step test_elab line1_refilled (request 6 CLASSIC)) 1 = \<lparr>tag = 1, dirty = False\<rparr>"
proof -
  have n: "0 < nb_lines test_cache" by (simp add: nb_lines_def test_cache_def)
  have r: "reachable test_elab line1_miss"
    unfolding line1_miss_def by (rule reachable_run) (rule reach_init)
  have m: "miss test_elab line1_miss (request 6 CLASSIC)"
    unfolding line1_miss_eq by (simp add: eval_defs)
  have a: "adr_line test_elab (adr (request 6 CLASSIC)) = 1"
    "adr_tag test_elab (adr (request 6 CLASSIC)) = 1"
    by (simp_all add: eval_defs)
  have f: "fsm line1_refilling = REFILL" "r_ready line1_refilling"
    "tag_mem line1_refilling 1 = \<lparr>tag = 0, dirty = False\<rparr>"
    by (simp_all add: line1_refilling_eq r_ready_def)
  have g: "fsm line1_refilled = REFILL" by (simp add: line1_refilled_eq)
  have c: "fsm (step test_elab line1_refilled (request 6 CLASSIC)) = CHECK"
    unfolding line1_refilled_eq by (simp add: eval_defs)
  have v: "r_valid ((request 6 CLASSIC)\<lparr>r_valid := True, r_data := 7\<rparr>)" by simp
  from post_refill [OF construct_test_cache elaborate_test_cache n r m line1_busy(1) f(1),
      of "(request 6 CLASSIC)\<lparr>r_valid := True, r_data := 7\<rparr>"] v f(2)
  have x: "tag_mem (step test_elab line1_refilling
        ((request 6 CLASSIC)\<lparr>r_valid := True, r_data := 7\<rparr>)) 1 = \<lparr>tag = 1, dirty = False\<rparr>"
    by (simp only: a)
  from post_refill [OF construct_test_cache elaborate_test_cache n r m line1_busy(2) g,
      of "request 6 CLASSIC"] c
  have y: "tag_mem (step test_elab line1_refilled (request 6 CLASSIC)) 1 = \<lparr>tag = 1, dirty = False\<rparr>"
    by (simp only: a)
  from construct_test_cache elaborate_test_cache n r m a f x g c y show ?thesis
    by (intro conjI)
qed

lemma construct_empty_cache: "construct 23 32 2 16 (Some 8) = Inr empty_cache"
proof -
  have "power_of_two 32" and "power_of_two 2" and "power_of_two 16"
    using power_of_two_power [of 5] power_of_two_power [of 1] power_of_two_power [of 4]
    by simp_all
  then have v: "claimed_valid 23 32 2 16" by (simp add: claimed_valid_def)
  have b: "bus_accepts 16 (Some 8)" by (simp add: bus_accepts_def)
  have l: "log2_int (32 div 16) = Inr 1" using log2_int_pow2 [of 1] by simp
  from construct_accept [OF v b] obtain k where
    k: "log2_int (32 div 16) = Inr k" and
    r: "construct 23 32 2 16 (Some 8) =
       Inr \<lparr>cache_size = 2,
            dram_port = \<lparr>port_addr_width = 23, port_data_width = 32\<rparr>,
            intr_bus = \<lparr>bus_addr_width = 23 + int k, bus_data_width = 16,
                        bus_granularity = granularity_of 16 (Some 8)\<rparr>\<rparr>"
    by (elim exE conjE)
  from k l have "k = 1" by simp
  with r show ?thesis by (simp add: granularity_of_def empty_cache_def)
qed

lemma elaborate_empty_cache: "elaborate empty_cache = Inr empty_elab"
proof -
  have "log2_int 2 = Inr 1" using log2_int_pow2 [of 1] by simp
  then show ?thesis
    by (simp add: elaborate_def intr_adr_layout_def ratio_def nb_lines_def empty_cache_def
        empty_elab_def log2_int_0)
qed

lemma empty_miss_eq:
  "empty_miss =
     \<lparr>fsm = CHECK, intr_bus_r_cyc = True, intr_bus_r_stb = True, intr_bus_r_adr = 2,
      evict_done_cmd = False, evict_done_w = False,
      refill_done_cmd = False, refill_done_r = False,
      tag_mem = (\<lambda>_. \<lparr>tag = 0, dirty = False\<rparr>), dat_mem = (\<lambda>_. 0),
      tag_rp_data = \<lparr>tag = 0, dirty = False\<rparr>, dat_rp_data = 0\<rparr>"
  unfolding empty_miss_def by (simp add: eval_defs empty_elab_def)

lemma empty_refilled_eq:
  "empty_refilled =
     \<lparr>fsm = REFILL, intr_bus_r_cyc = False, intr_bus_r_stb = False, intr_bus_r_adr = 2,
      evict_done_cmd = False, evict_done_w = False,
      refill_done_cmd = True, refill_done_r = True,
      tag_mem = (\<lambda>_. \<lparr>tag = 0, dirty = False\<rparr>), dat_mem = (\<lambda>_. 0),
      tag_rp_data = \<lparr>tag = 0, dirty = False\<rparr>, dat_rp_data = 0\<rparr>"
  unfolding empty_refilled_def by (simp add: eval_defs empty_elab_def)

text \<open>
  Claim C3 as stated fails. The configuration (23, 32, 2, 16, 8) is accepted and has
  \<open>nb_lines = 0\<close>: the cache is smaller than one line and both memories have depth 0.
  A request for address 2 (tag 1) misses, the refill runs and its read beat is accepted,
  and the controller returns to CHECK with the registered tag 1; the TagStore has stored
  nothing, and the entry of line 0 is the reset value, tag 0.
\<close>

theorem empty_cache_refill_counterexample:
  "construct 23 32 2 16 (Some 8) = Inr empty_cache \<and> elaborate empty_cache = Inr empty_elab
   \<and> nb_lines empty_cache = 0
   \<and> miss empty_elab empty_miss (request 2 CLASSIC)
   \<and> empty_refilled =
       run empty_elab (step empty_elab empty_miss (request 2 CLASSIC))
         [(request 2 CLASSIC)\<lparr>cmd_ready := True\<rparr>,
          (request 2 CLASSIC)\<lparr>r_valid := True, r_data := 7\<rparr>]
   \<and> fsm empty_refilled = REFILL \<and> refill_done_r empty_refilled
   \<and> fsm (step empty_elab empty_refilled (request 2 CLASSIC)) = CHECK
   \<and> intr_adr_r_line empty_elab (step empty_elab empty_refilled (request 2 CLASSIC)) = 0
   \<and> intr_adr_r_tag empty_elab (step empty_elab empty_refilled (request 2 CLASSIC)) = 1
   \<and> tag_mem (step empty_elab empty_refilled (request 2 CLASSIC)) 0 = \<lparr>tag = 0, dirty = False\<rparr>
   \<and> \<not> claimed_post_refill empty_elab (step empty_elab empty_refilled (request 2 CLASSIC))"
proof -
  have n: "nb_lines empty_cache = 0" by (simp add: nb_lines_def empty_cache_def)
  have m: "miss empty_elab empty_miss (request 2 CLASSIC)"
    unfolding empty_miss_eq by (simp add: eval_defs empty_elab_def)
  have e: "empty_refilled =
       run empty_elab (step empty_elab empty_miss (request 2 CLASSIC))
         [(request 2 CLASSIC)\<lparr>cmd_ready := True\<rparr>,
          (request 2 CLASSIC)\<lparr>r_valid := True, r_data := 7\<rparr>]"
    by (simp add: empty_refilled_def empty_miss_def)
  have f: "fsm empty_refilled = REFILL" "refill_done_r empty_refilled"
    by (simp_all add: empty_refilled_eq)
  have c: "fsm (step empty_elab empty_refilled (request 2 CLASSIC)) = CHECK"
    "intr_adr_r_line empty_elab (step empty_elab empty_refilled (request 2 CLASSIC)) = 0"
    "intr_adr_r_tag empty_elab (step empty_elab empty_refilled (request 2 CLASSIC)) = 1"
    "tag_mem (step empty_elab empty_refilled (request 2 CLASSIC)) 0 = \<lparr>tag = 0, dirty = False\<rparr>"
    unfolding empty_refilled_eq by (simp_all add: eval_defs empty_elab_def)
  from c have x: "\<not> claimed_post_refill empty_elab (step empty_elab empty_refilled (request 2 CLASSIC))"
    by (simp only: claimed_post_refill_def) simp
  from construct_empty_cache elaborate_empty_cache n m e f c x show ?thesis by (intro conjI)
qed

subsection \<open>A cache of one line\<close>

lemma construct_single_cache: "construct 23 32 4 16 (Some 8) = Inr single_cache"
proof -
  have "power_of_two 32" and "power_of_two 4" and "power_of_two 16"
    using power_of_two_power [of 5] power_of_two_power [of 2] power_of_two_power [of 4]
    by simp_all
  then have v: "claimed_valid 23 32 4 16" by (simp add: claimed_valid_def)
  have b: "bus_accepts 16 (Some 8)" by (simp add: bus_accepts_def)
  have l: "log2_int (32 div 16) = Inr 1" using log2_int_pow2 [of 1] by simp
  from construct_accept [OF v b] obtain k where
    k: "log2_int (32 div 16) = Inr k" and
    r: "construct 23 32 4 16 (Some 8) =
       Inr \<lparr>cache_size = 4,
            dram_port = \<lparr>port_addr_width = 23, port_data_width = 32\<rparr>,
            intr_bus = \<lparr>bus_addr_width = 23 + int k, bus_data_width = 16,
                        bus_granularity = granularity_of 16 (Some 8)\<rparr>\<rparr>"
    by (elim exE conjE)
  from k l have "k = 1" by simp
  with r show ?thesis by (simp add: granularity_of_def single_cache_def)
qed

lemma elaborate_single_cache: "elaborate single_cache = Inr single_elab"
proof -
  have "log2_int 2 = Inr 1" and "log2_int 1 = Inr 0"
    using log2_int_pow2 [of 1] log2_int_pow2 [of 0] by simp_all
  then show ?thesis
    by (simp add: elaborate_def intr_adr_layout_def ratio_def nb_lines_def single_cache_def
        single_elab_def)
qed

lemma stale_evict_eq:
  "stale_evict =
     \<lparr>fsm = EVICT, intr_bus_r_cyc = False, intr_bus_r_stb = False, intr_bus_r_adr = 2,
      evict_done_cmd = False, evict_done_w = False,
      refill_done_cmd = False, refill_done_r = False,
      tag_mem = (\<lambda>_. \<lparr>tag = 0, dirty = False\<rparr>)(0 := \<lparr>tag = 0, dirty = True\<rparr>),
      dat_mem = (\<lambda>_. 0)(0 := 572657937),
      tag_rp_data = \<lparr>tag = 0, dirty = True\<rparr>, dat_rp_data = 4369\<rparr>"
  unfolding stale_evict_def
  by (simp add: eval_defs single_elab_def burst_write_def write_lanes_pos Repl_pos)

text \<open>
  Claim C4: the write beat of an eviction is to carry the full content of the evicted
  line. The code does not do that on the following run, which keeps to every assumption
  the test harness makes of the requester. In the configuration (23, 32, 4, 16, 8), a
  cache of one line, a linear burst writes \<open>0x1111\<close> to address 0 (acknowledged on its
  second tick) and \<open>0x2222\<close> to address 1 (acknowledged), and goes on to address 2, which
  misses. The controller is then in EVICT for line 0, with the command and the write beat
  both valid; the DataStore holds \<open>0x22221111 = 572657937\<close> for line 0 and the write beat
  carries \<open>0x1111 = 4369\<close>. The read port is not transparent and was last enabled on the
  tick of the second write, so it loaded the line as it was before that write (lines 137
  to 151 and 201). The harness asserts that the data written back is the content it
  tracked (lines 144 to 150 of the test).
\<close>

theorem evict_writes_stale_line:
  "construct 23 32 4 16 (Some 8) = Inr single_cache \<and> elaborate single_cache = Inr single_elab
   \<and> fsm stale_evict = EVICT \<and> intr_adr_r_line single_elab stale_evict = 0
   \<and> cmd_valid stale_evict \<and> cmd_we stale_evict \<and> cmd_addr single_elab stale_evict = 0
   \<and> w_valid stale_evict
   \<and> dat_mem stale_evict 0 = 572657937
   \<and> w_data stale_evict = 4369"
proof -
  have "fsm stale_evict = EVICT" and "intr_adr_r_line single_elab stale_evict = 0"
    and "cmd_valid stale_evict" and "cmd_we stale_evict"
    and "cmd_addr single_elab stale_evict = 0" and "w_valid stale_evict"
    and "dat_mem stale_evict 0 = 572657937" and "w_data stale_evict = 4369"
    unfolding stale_evict_eq
    by (simp_all add: eval_defs single_elab_def cmd_we_def cmd_addr_def Cat_def w_data_def)
  with construct_single_cache elaborate_single_cache show ?thesis by (intro conjI)
qed

lemma stale_dirty_eq:
  "stale_dirty =
     \<lparr>fsm = CHECK, intr_bus_r_cyc = True, intr_bus_r_stb = True, intr_bus_r_adr = 1,
      evict_done_cmd = False, evict_done_w = False,
      refill_done_cmd = False, refill_done_r = False,
      tag_mem = (\<lambda>_. \<lparr>tag = 0, dirty = False\<rparr>)(0 := \<lparr>tag = 0, dirty = True\<rparr>),
      dat_mem = (\<lambda>_. 0)(0 := 286326784),
      tag_rp_data = \<lparr>tag = 0, dirty = False\<rparr>, dat_rp_data = 0\<rparr>"
  unfolding stale_dirty_def
  by (simp add: eval_defs single_elab_def burst_write_def write_lanes_pos Repl_pos)

text \<open>
  The same read delivers the dirty bit. In the one-line configuration, after a single
  acknowledged burst write to address 1 the next address 2 misses; the stored entry of
  line 0 is dirty, the read port delivers the entry as it was before the write, clean, and
  the controller goes to REFILL without an eviction.
\<close>

lemma stale_dirty_bit_skips_evict:
  "miss single_elab stale_dirty (burst_write 2 0)
   \<and> dirty (tag_mem stale_dirty (adr_line single_elab (adr (burst_write 2 0))))
   \<and> \<not> dirty (tag_rp_data stale_dirty)
   \<and> fsm (step single_elab stale_dirty (burst_write 2 0)) = REFILL"
  unfolding stale_dirty_eq
  by (simp add: eval_defs single_elab_def burst_write_def)

end
